theory Spec2Isabelle
  imports Main "HOL-Library.Word"
begin

unbundle bit_operations_syntax

section \<open>export\_3mf.py: STL parts to a multi-colour 3MF package\<close>

text \<open>
  A shallow embedding of \<^verbatim>\<open>src/hardware/nfc-sign/export_3mf.py\<close>: the vertex
  deduplication of \<^verbatim>\<open>stl_to_vertices_triangles\<close>, the two passes of
  \<^verbatim>\<open>create_3mf\<close> (colours, then objects), the assembly of the three archive
  entries, and the command-line block that calls it.

  What the script gets from outside is a parameter of the model (the record \<open>env\<close>):
  the file system (\<^verbatim>\<open>os.path.exists\<close>), numpy-stl's reader
  (\<^verbatim>\<open>mesh.Mesh.from_file(f).vectors\<close>), Python's \<^verbatim>\<open>.6f\<close> float formatting
  the XML serialiser (\<^verbatim>\<open>ET.tostring\<close> followed by minidom's
  \<^verbatim>\<open>toprettyxml\<close>) and whether the archive can be written at a path
  (\<^verbatim>\<open>zipfile.ZipFile(output_file, 'w')\<close> and its \<^verbatim>\<open>writestr\<close> calls). Exceptions are
  values of the type \<open>error\<close>. The messages printed on standard output are not
  modelled.
\<close>

subsection \<open>Coordinates and the key test of the vertex dictionary\<close>

text \<open>
  numpy-stl stores \<^verbatim>\<open>vectors\<close> as an array of shape (N, 3, 3) of IEEE-754 single
  precision numbers, so a coordinate is a 32-bit pattern, a vertex is a triple of
  coordinates and a triangle is a triple of vertices. \<^verbatim>\<open>tuple(vertex)\<close> is the key of
  \<^verbatim>\<open>vertex_map\<close>; a dictionary finds a key by \<^verbatim>\<open>==\<close> on the tuples, which is
  \<^verbatim>\<open>==\<close> on the floats, coordinate by coordinate (the scalars of a freshly built
  tuple are new objects, so the identity shortcut of the comparison never fires against
  a stored key). Float equality is not equality of bit patterns: a NaN equals nothing,
  itself included, and the two zeros are equal.
\<close>

type_synonym float32 = "32 word"

definition is_nan :: "float32 \<Rightarrow> bool" where
  "is_nan w \<longleftrightarrow> w AND 0x7F800000 = 0x7F800000 \<and> w AND 0x007FFFFF \<noteq> 0"

definition is_zero :: "float32 \<Rightarrow> bool" where
  "is_zero w \<longleftrightarrow> w = 0 \<or> w = 0x80000000"

definition float_eq :: "float32 \<Rightarrow> float32 \<Rightarrow> bool" where
  "float_eq a b \<longleftrightarrow> \<not> is_nan a \<and> \<not> is_nan b \<and> (a = b \<or> (is_zero a \<and> is_zero b))"

type_synonym v_tuple = "float32 \<times> float32 \<times> float32"

type_synonym raw_triangle = "v_tuple \<times> v_tuple \<times> v_tuple"

type_synonym tri_indices = "nat \<times> nat \<times> nat"

fun tuple_eq :: "v_tuple \<Rightarrow> v_tuple \<Rightarrow> bool" where
  "tuple_eq (x, y, z) (x', y', z') \<longleftrightarrow> float_eq x x' \<and> float_eq y y' \<and> float_eq z z'"

text \<open>
  \<^verbatim>\<open>vertex_map\<close> in insertion order. \<open>dict_get\<close> is the lookup
  \<^verbatim>\<open>v_tuple in vertex_map\<close> / \<^verbatim>\<open>vertex_map[v_tuple]\<close> for a freshly built key.
\<close>

type_synonym vertex_dict = "(v_tuple \<times> nat) list"

fun dict_get :: "vertex_dict \<Rightarrow> v_tuple \<Rightarrow> nat option" where
  "dict_get [] k = None"
| "dict_get ((k', i) # m) k = (if tuple_eq k' k then Some i else dict_get m k)"

subsection \<open>Errors and the outside world\<close>

datatype error = KeyError | DecodeError | EncodeError | OSError

datatype xml = Element (tag: string) (attrib: "(string \<times> string) list") (children: "xml list")

record env =
  path_exists :: "string \<Rightarrow> bool"
  from_file :: "string \<Rightarrow> raw_triangle list option"
  format_6f :: "float32 \<Rightarrow> string"
  toprettyxml :: "xml \<Rightarrow> string option"
  archive_writable :: "string \<Rightarrow> bool"

text \<open>
  \<open>from_file env f = None\<close>: \<^verbatim>\<open>mesh.Mesh.from_file\<close> raises (the path is a directory,
  the file is truncated or is no STL). \<open>toprettyxml env m = None\<close>: the serialiser or
  minidom's parser raises (an attribute value with a character XML forbids).
  \<open>archive_writable env f\<close> is false when \<^verbatim>\<open>zipfile.ZipFile(f, 'w')\<close> or one of the
  \<^verbatim>\<open>writestr\<close> calls raises (the directory of \<open>f\<close> does not exist, \<open>f\<close> is a
  directory, permission is denied, the disk is full).
\<close>

subsection \<open>stl\_to\_vertices\_triangles\<close>

text \<open>
  The body of the inner loop for one vertex (source lines 46 to 50): the index the
  triangle receives, and the updated \<^verbatim>\<open>vertices\<close> and \<^verbatim>\<open>vertex_map\<close>. The read
  \<^verbatim>\<open>vertex_map[v_tuple]\<close> of line 50 finds either the stored equal key or, by
  identity, the key inserted one line before.
\<close>

definition add_vertex ::
  "v_tuple \<Rightarrow> v_tuple list \<Rightarrow> vertex_dict \<Rightarrow> nat \<times> v_tuple list \<times> vertex_dict" where
  "add_vertex v_tuple vertices vertex_map =
     (case dict_get vertex_map v_tuple of
        Some i \<Rightarrow> (i, vertices, vertex_map)
      | None \<Rightarrow> (length vertices, vertices @ [v_tuple],
                 vertex_map @ [(v_tuple, length vertices)]))"

fun stl_loop ::
  "raw_triangle list \<Rightarrow> v_tuple list \<Rightarrow> vertex_dict \<Rightarrow> tri_indices list
     \<Rightarrow> v_tuple list \<times> tri_indices list" where
  "stl_loop [] vertices vertex_map triangles = (vertices, triangles)"
| "stl_loop ((a, b, c) # rest) vertices vertex_map triangles =
     (case add_vertex a vertices vertex_map of (i, vs1, m1) \<Rightarrow>
      case add_vertex b vs1 m1 of (j, vs2, m2) \<Rightarrow>
      case add_vertex c vs2 m2 of (k, vs3, m3) \<Rightarrow>
        stl_loop rest vs3 m3 (triangles @ [(i, j, k)]))"

definition stl_to_vertices_triangles ::
  "env \<Rightarrow> string \<Rightarrow> error + (v_tuple list \<times> tri_indices list)" where
  "stl_to_vertices_triangles env stl_file =
     (case from_file env stl_file of
        None \<Rightarrow> Inl DecodeError
      | Some vectors \<Rightarrow> Inr (stl_loop vectors [] [] []))"

text \<open>
  The raw triangles a (vertex table, index triangles) pair stands for: what a reader of
  the emitted mesh gets back. An index is only read where it is in range.
\<close>

definition expand :: "v_tuple list \<Rightarrow> tri_indices list \<Rightarrow> raw_triangle list" where
  "expand vertices triangles = map (\<lambda>(i, j, k). (vertices ! i, vertices ! j, vertices ! k)) triangles"

subsection \<open>create\_3mf\<close>

text \<open>A part is a dictionary with the keys \<^verbatim>\<open>file\<close>, \<^verbatim>\<open>color\<close> and \<^verbatim>\<open>name\<close>.\<close>

type_synonym part = "string \<rightharpoonup> string"

fun str_nat :: "nat \<Rightarrow> string" where
  "str_nat n = (if n < 10 then [''0123456789'' ! n]
                else str_nat (n div 10) @ [''0123456789'' ! (n mod 10)])"

declare str_nat.simps [simp del]

definition ns_3mf :: string where
  "ns_3mf = ''http://schemas.microsoft.com/3dmanufacturing/core/2015/02''"

definition ns_material :: string where
  "ns_material = ''http://schemas.microsoft.com/3dmanufacturing/material/2015/02''"

definition part_color :: "part \<Rightarrow> string" where
  "part_color part = (case part ''color'' of Some c \<Rightarrow> c | None \<Rightarrow> ''#808080'')"

definition basename :: "string \<Rightarrow> string" where
  "basename p = rev (takeWhile (\<lambda>c. c \<noteq> CHR ''/'') (rev p))"

text \<open>
  The colour pass (source lines 80 to 89), over every part: the \<^verbatim>\<open>base\<close> children of
  \<^verbatim>\<open>basematerials\<close> so far, \<^verbatim>\<open>color_map\<close> and \<^verbatim>\<open>color_id\<close>.
\<close>

definition base_elem :: "string \<Rightarrow> string \<Rightarrow> xml" where
  "base_elem base_name color =
     Element (''{'' @ ns_material @ ''}base'') [(''name'', base_name), (''displaycolor'', color)] []"

definition base_name :: "part \<Rightarrow> nat \<Rightarrow> string" where
  "base_name part color_id = (case part ''name'' of Some n \<Rightarrow> n | None \<Rightarrow> ''Color_'' @ str_nat color_id)"

fun color_loop ::
  "part list \<Rightarrow> xml list \<Rightarrow> (string \<rightharpoonup> nat) \<Rightarrow> nat \<Rightarrow> xml list \<times> (string \<rightharpoonup> nat) \<times> nat" where
  "color_loop [] bases color_map color_id = (bases, color_map, color_id)"
| "color_loop (part # parts) bases color_map color_id =
     (let color = part_color part in
      if color_map color = None then
        color_loop parts (bases @ [base_elem (base_name part color_id) color])
          (color_map(color \<mapsto> color_id)) (color_id + 1)
      else color_loop parts bases color_map color_id)"

definition vertex_elem :: "env \<Rightarrow> v_tuple \<Rightarrow> xml" where
  "vertex_elem env v = (case v of (x, y, z) \<Rightarrow>
     Element ''vertex'' [(''x'', format_6f env x), (''y'', format_6f env y), (''z'', format_6f env z)] [])"

definition triangle_elem :: "tri_indices \<Rightarrow> xml" where
  "triangle_elem t = (case t of (i, j, k) \<Rightarrow>
     Element ''triangle'' [(''v1'', str_nat i), (''v2'', str_nat j), (''v3'', str_nat k)] [])"

definition object_elem ::
  "env \<Rightarrow> nat \<Rightarrow> string \<Rightarrow> nat \<Rightarrow> v_tuple list \<Rightarrow> tri_indices list \<Rightarrow> xml" where
  "object_elem env object_id obj_name color_idx vertices triangles =
     Element ''object''
       [(''id'', str_nat object_id), (''type'', ''model''), (''name'', obj_name),
        (''pid'', ''1''), (''pindex'', str_nat color_idx)]
       [Element ''mesh'' []
          [Element ''vertices'' [] (map (vertex_elem env) vertices),
           Element ''triangles'' [] (map triangle_elem triangles)]]"

text \<open>
  The object pass (source lines 92 to 132): the \<^verbatim>\<open>object\<close> children appended to
  \<^verbatim>\<open>resources\<close> so far, \<^verbatim>\<open>object_id\<close> and \<^verbatim>\<open>build_items\<close>.
  \<^verbatim>\<open>part['file']\<close> raises KeyError on a part without that key.
\<close>

fun object_loop ::
  "env \<Rightarrow> (string \<rightharpoonup> nat) \<Rightarrow> part list \<Rightarrow> xml list \<Rightarrow> nat \<Rightarrow> nat list
     \<Rightarrow> error + (xml list \<times> nat \<times> nat list)" where
  "object_loop env color_map [] objs object_id build_items = Inr (objs, object_id, build_items)"
| "object_loop env color_map (part # parts) objs object_id build_items =
     (case part ''file'' of
        None \<Rightarrow> Inl KeyError
      | Some stl_file \<Rightarrow>
          if \<not> path_exists env stl_file
          then object_loop env color_map parts objs object_id build_items
          else (case stl_to_vertices_triangles env stl_file of
                  Inl e \<Rightarrow> Inl e
                | Inr (vertices, triangles) \<Rightarrow>
                    let color_idx = (case color_map (part_color part) of Some i \<Rightarrow> i | None \<Rightarrow> 0);
                        obj = object_elem env object_id
                                (case part ''name'' of Some n \<Rightarrow> n | None \<Rightarrow> basename stl_file)
                                color_idx vertices triangles
                    in object_loop env color_map parts (objs @ [obj]) (object_id + 1)
                         (build_items @ [object_id])))"

definition item_elem :: "nat \<Rightarrow> xml" where
  "item_elem item_id = Element ''item'' [(''objectid'', str_nat item_id)] []"

text \<open>The element tree of source lines 63 to 138, with the build list beside it.\<close>

definition build_model :: "env \<Rightarrow> part list \<Rightarrow> error + (xml \<times> nat list)" where
  "build_model env parts =
     (case color_loop parts [] Map.empty 0 of (bases, color_map, color_id) \<Rightarrow>
       (case object_loop env color_map parts [] 2 [] of
          Inl e \<Rightarrow> Inl e
        | Inr (objs, object_id, build_items) \<Rightarrow>
            Inr (Element ''model''
                   [(''unit'', ''millimeter''), (''xmlns'', ns_3mf), (''xmlns:m'', ns_material)]
                   [Element ''resources'' []
                      (Element (''{'' @ ns_material @ ''}basematerials'') [(''id'', ''1'')] bases
                       # objs),
                    Element ''build'' [] (map item_elem build_items)],
                 build_items)))"

subsection \<open>The package\<close>

definition newline :: char where
  "newline = CHR 0x0A"

fun split_nl :: "string \<Rightarrow> string list" where
  "split_nl [] = [[]]"
| "split_nl (c # cs) =
     (if c = newline then [] # split_nl cs
      else (case split_nl cs of l # ls \<Rightarrow> (c # l) # ls | [] \<Rightarrow> [[c]]))"

fun join_nl :: "string list \<Rightarrow> string" where
  "join_nl [] = []"
| "join_nl [l] = l"
| "join_nl (l # ls) = l @ newline # join_nl ls"

definition xml_declaration :: string where
  "xml_declaration = ''<?xml version=\"1.0\" encoding=\"UTF-8\"?>''"

definition content_types :: string where
  "content_types = xml_declaration @ newline #
     ''<Types xmlns=\"http://schemas.openxmlformats.org/package/2006/content-types\">'' @ newline #
     ''  <Default Extension=\"rels\" ContentType=\"application/vnd.openxmlformats-package.relationships+xml\"/>'' @ newline #
     ''  <Default Extension=\"model\" ContentType=\"application/vnd.ms-package.3dmanufacturing-3dmodel+xml\"/>'' @ newline #
     ''</Types>''"

definition rels :: string where
  "rels = xml_declaration @ newline #
     ''<Relationships xmlns=\"http://schemas.openxmlformats.org/package/2006/relationships\">'' @ newline #
     ''  <Relationship Target=\"/3D/3dmodel.model\" Id=\"rel0\" Type=\"http://schemas.microsoft.com/3dmanufacturing/2013/01/3dmodel\"/>'' @ newline #
     ''</Relationships>''"

text \<open>
  A ZIP archive as the list of its entries (name, content) in the order of the
  \<^verbatim>\<open>writestr\<close> calls. \<open>create_3mf\<close> returns the path it wrote and the archive now
  stored there. On \<open>Inl\<close> an exception left the function and no package was produced:
  KeyError, DecodeError and EncodeError are raised before \<^verbatim>\<open>zipfile.ZipFile\<close> is
  opened (source line 148), OSError by it or while the entries are written.
\<close>

type_synonym archive = "(string \<times> string) list"

definition create_3mf :: "env \<Rightarrow> part list \<Rightarrow> string \<Rightarrow> error + (string \<times> archive)" where
  "create_3mf env parts output_file =
     (case build_model env parts of
        Inl e \<Rightarrow> Inl e
      | Inr (model, build_items) \<Rightarrow>
          (case toprettyxml env model of
             None \<Rightarrow> Inl EncodeError
           | Some pretty \<Rightarrow>
               let xml_str = join_nl (tl (split_nl pretty));
                   xml_str = xml_declaration @ newline # xml_str
               in if \<not> archive_writable env output_file then Inl OSError
                  else Inr (output_file,
                            [(''[Content_Types].xml'', content_types),
                             (''_rels/.rels'', rels),
                             (''3D/3dmodel.model'', xml_str)])))"

subsection \<open>The command-line block\<close>



definition part_exists :: "env \<Rightarrow> part \<Rightarrow> bool" where
  "part_exists env p = (case p ''file'' of Some f \<Rightarrow> path_exists env f | None \<Rightarrow> False)"



subsection \<open>Notions the properties are stated with\<close>

text \<open>
  Reading the element tree: an attribute, and the elements reached from a list of
  elements along a path of tags (ElementTree's \<^verbatim>\<open>findall('a/b/c')\<close>).
\<close>

definition get_attr :: "xml \<Rightarrow> string \<Rightarrow> string option" where
  "get_attr e k = map_of (attrib e) k"

fun findall :: "xml list \<Rightarrow> string list \<Rightarrow> xml list" where
  "findall es [] = es"
| "findall es (t # ts) = findall (concat (map (\<lambda>e. filter (\<lambda>c. tag c = t) (children e)) es)) ts"

definition objects_of :: "xml \<Rightarrow> xml list" where
  "objects_of model = findall [model] [''resources'', ''object'']"

definition bases_of :: "xml \<Rightarrow> xml list" where
  "bases_of model =
     findall [model] [''resources'', ''{'' @ ns_material @ ''}basematerials'', ''{'' @ ns_material @ ''}base'']"

definition items_of :: "xml \<Rightarrow> xml list" where
  "items_of model = findall [model] [''build'', ''item'']"

definition vertices_of :: "xml \<Rightarrow> xml list" where
  "vertices_of obj = findall [obj] [''mesh'', ''vertices'', ''vertex'']"

definition triangles_of :: "xml \<Rightarrow> xml list" where
  "triangles_of obj = findall [obj] [''mesh'', ''triangles'', ''triangle'']"

text \<open>The colours of the emitted \<^verbatim>\<open>basematerials\<close> block, in order.\<close>

definition displaycolors :: "xml \<Rightarrow> string option list" where
  "displaycolors model = map (\<lambda>b. get_attr b ''displaycolor'') (bases_of model)"

text \<open>The attribute \<open>k\<close> of \<open>e\<close> is the decimal numeral of an index below \<open>n\<close>.\<close>

definition index_attr :: "xml \<Rightarrow> string \<Rightarrow> nat \<Rightarrow> bool" where
  "index_attr e k n \<longleftrightarrow> get_attr e k \<in> set (map (\<lambda>i. Some (str_nat i)) [0..<n])"

definition triangle_ok :: "nat \<Rightarrow> xml \<Rightarrow> bool" where
  "triangle_ok n t \<longleftrightarrow> index_attr t ''v1'' n \<and> index_attr t ''v2'' n \<and> index_attr t ''v3'' n"

definition object_ok :: "nat \<Rightarrow> xml \<Rightarrow> bool" where
  "object_ok n_bases obj \<longleftrightarrow>
     index_attr obj ''pindex'' n_bases \<and>
     list_all (triangle_ok (length (vertices_of obj))) (triangles_of obj)"

text \<open>The name an object gets (source line 108), and the parts that are not skipped.\<close>

definition object_name :: "part \<Rightarrow> string" where
  "object_name part =
     (case part ''name'' of Some n \<Rightarrow> n
      | None \<Rightarrow> (case part ''file'' of Some f \<Rightarrow> basename f | None \<Rightarrow> []))"

definition located :: "env \<Rightarrow> part list \<Rightarrow> part list" where
  "located env parts = filter (part_exists env) parts"

text \<open>
  Two coordinates are the same up to the sign of a zero; two vertices, coordinate by
  coordinate.
\<close>

definition coord_same :: "float32 \<Rightarrow> float32 \<Rightarrow> bool" where
  "coord_same a b \<longleftrightarrow> a = b \<or> (is_zero a \<and> is_zero b)"

fun vertex_same :: "v_tuple \<Rightarrow> v_tuple \<Rightarrow> bool" where
  "vertex_same (x, y, z) (x', y', z') \<longleftrightarrow> coord_same x x' \<and> coord_same y y' \<and> coord_same z z'"


fun neg_zero_free :: "v_tuple \<Rightarrow> bool" where
  "neg_zero_free (x, y, z) \<longleftrightarrow> x \<noteq> 0x80000000 \<and> y \<noteq> 0x80000000 \<and> z \<noteq> 0x80000000"

text \<open>No two entries of a vertex table are equal by the key test of the dictionary.\<close>

definition pairwise_distinct :: "v_tuple list \<Rightarrow> bool" where
  "pairwise_distinct vs = sorted_wrt (\<lambda>v w. \<not> tuple_eq v w) vs"

text \<open>
  The loop invariant: \<^verbatim>\<open>vertex_map\<close> sends each entry of \<^verbatim>\<open>vertices\<close> to its
  position, and the entries are pairwise distinct.
\<close>

definition dict_inv :: "v_tuple list \<Rightarrow> vertex_dict \<Rightarrow> bool" where
  "dict_inv vs m \<longleftrightarrow> m = zip vs [0..<length vs] \<and> pairwise_distinct vs"

text \<open>
  An index triangle reproduces a raw triangle through a vertex table: its indices are
  in range and select, in order, the three corners up to the sign of a zero.
\<close>

fun reproduces :: "v_tuple list \<Rightarrow> tri_indices \<Rightarrow> raw_triangle \<Rightarrow> bool" where
  "reproduces vs (i, j, k) (a, b, c) \<longleftrightarrow>
     i < length vs \<and> j < length vs \<and> k < length vs \<and>
     vertex_same (vs ! i) a \<and> vertex_same (vs ! j) b \<and> vertex_same (vs ! k) c"

fun corners :: "raw_triangle list \<Rightarrow> v_tuple list" where
  "corners [] = []"
| "corners ((a, b, c) # rest) = a # b # c # corners rest"

subsection \<open>Sample inputs\<close>

text \<open>
  Points of the unit square (\<open>0x3F800000\<close> is 1.0), the origin with a negative zero
  (\<open>0x80000000\<close> is -0.0) and a point with a NaN coordinate.
\<close>

definition p0 :: v_tuple where "p0 = (0, 0, 0)"
definition p1 :: v_tuple where "p1 = (0x3F800000, 0, 0)"
definition p2 :: v_tuple where "p2 = (0, 0x3F800000, 0)"
definition p3 :: v_tuple where "p3 = (0x3F800000, 0x3F800000, 0)"
definition n0 :: v_tuple where "n0 = (0x80000000, 0, 0)"
definition q_nan :: v_tuple where "q_nan = (0x7FC00000, 0, 0)"

definition square_mesh :: "raw_triangle list" where
  "square_mesh = [(p0, p1, p2), (p2, p1, p3)]"

definition signed_zero_mesh :: "raw_triangle list" where
  "signed_zero_mesh = [(p0, p1, p2), (n0, p2, p1)]"

text \<open>
  Two triangles that share the edge from \<open>p1\<close> to \<open>p2\<close>, with the four corner points
  \<open>p0\<close>, \<open>p1\<close>, \<open>p2\<close> and \<open>n0\<close>; and one triangle with the same NaN vertex twice.
\<close>

definition fold_mesh :: "raw_triangle list" where
  "fold_mesh = [(p0, p1, p2), (p2, p1, n0)]"

definition nan_mesh :: "raw_triangle list" where
  "nan_mesh = [(q_nan, q_nan, p0)]"

definition sample_files :: "(string \<times> raw_triangle list) list" where
  "sample_files =
     [(''plate.stl'', square_mesh),
      (''text.stl'', signed_zero_mesh),
      (''again.stl'', [(p0, p1, p2), (p0, p2, p1)]),
      (''fold.stl'', fold_mesh),
      (''nan.stl'', nan_mesh)]"

definition plate_part :: part where
  "plate_part = [''file'' \<mapsto> ''plate.stl'', ''color'' \<mapsto> ''#F5F5F0'', ''name'' \<mapsto> ''Sign Base'']"

definition ghost_part :: part where
  "ghost_part = [''file'' \<mapsto> ''ghost.stl'', ''color'' \<mapsto> ''#FF0000'', ''name'' \<mapsto> ''Ghost'']"

definition text_part :: part where
  "text_part = [''file'' \<mapsto> ''text.stl'', ''color'' \<mapsto> ''#1A1A1A'', ''name'' \<mapsto> ''Sign Text'']"

definition stand_part :: part where
  "stand_part = [''file'' \<mapsto> ''again.stl'', ''color'' \<mapsto> ''#1A1A1A'', ''name'' \<mapsto> ''Stand'']"

text \<open>
  A stand-in for the two library functions in the sample environment: the
  \<^verbatim>\<open>.6f\<close> rendering of the coordinates the sample meshes use, and a serialiser that
  writes minidom's declaration line and then the tree on one line. In the sample
  environment an archive can be written in the working directory only.
\<close>

definition sample_format :: "float32 \<Rightarrow> string" where
  "sample_format w =
     (if w = 0 then ''0.000000'' else if w = 0x3F800000 then ''1.000000''
      else if w = 0x80000000 then ''-0.000000'' else ''nan'')"

fun sample_tostring :: "xml \<Rightarrow> string" where
  "sample_tostring (Element t as cs) =
     ''<'' @ t @ concat (map (\<lambda>(k, v). '' '' @ k @ ''=\"'' @ v @ ''\"'') as) @ ''>''
     @ concat (map sample_tostring cs) @ ''</'' @ t @ ''>''"

definition sample_env :: env where
  "sample_env =
     \<lparr>path_exists = (\<lambda>f. map_of sample_files f \<noteq> None),
      from_file = map_of sample_files,
      format_6f = sample_format,
      toprettyxml = (\<lambda>m. Some (''<?xml version=\"1.0\" ?>'' @ newline # sample_tostring m @ [newline])),
      archive_writable = (\<lambda>f. CHR ''/'' \<notin> set f)\<rparr>"

text \<open>The sample environment with one more file, which no sample part names.\<close>

definition sample_env2 :: env where
  "sample_env2 =
     sample_env\<lparr>path_exists := (\<lambda>f. f = ''extra.stl'' \<or> path_exists sample_env f),
                from_file := (from_file sample_env)(''extra.stl'' \<mapsto> [(p0, p0, p0)])\<rparr>"

section \<open>Vertex deduplication\<close>

lemmas sample_points = p0_def p1_def p2_def p3_def n0_def q_nan_def float_eq_def is_nan_def is_zero_def

lemma float_eq_sym: "float_eq a b \<Longrightarrow> float_eq b a"
  by (auto simp: float_eq_def)

lemma tuple_eq_sym: "tuple_eq a b \<Longrightarrow> tuple_eq b a"
  by (cases a; cases b) (auto dest: float_eq_sym)

lemma tuple_eq_refl_left: "tuple_eq a b \<Longrightarrow> tuple_eq a a"
  by (cases a; cases b) (auto simp: float_eq_def)

lemma tuple_eq_same: "tuple_eq a b \<Longrightarrow> vertex_same a b"
  by (cases a; cases b) (auto simp: float_eq_def coord_same_def)

lemma vertex_same_refl: "vertex_same a a"
  by (cases a) (auto simp: coord_same_def)

lemma zip_upt_Cons:
  "zip (w # ws) [n..<n + length (w # ws)] = (w, n) # zip ws [Suc n..<Suc n + length ws]"
  by (simp del: upt_Suc add: upt_conv_Cons)

lemma dict_get_Some:
  "dict_get (zip vs [n..<n + length vs]) v = Some i \<Longrightarrow>
     n \<le> i \<and> i < n + length vs \<and> tuple_eq (vs ! (i - n)) v"
proof (induction vs arbitrary: n)
  case Nil
  then show ?case by simp
next
  case (Cons w ws)
  note z = zip_upt_Cons [of w ws n]
  show ?case
  proof (cases "tuple_eq w v")
    case True
    with Cons.prems z show ?thesis by simp
  next
    case False
    with Cons.prems z have "dict_get (zip ws [Suc n..<Suc n + length ws]) v = Some i" by simp
    from Cons.IH [OF this] show ?thesis by (auto simp: Suc_diff_le nth_Cons')
  qed
qed

lemma dict_get_None:
  "dict_get (zip vs [n..<n + length vs]) v = None \<Longrightarrow> \<forall>w\<in>set vs. \<not> tuple_eq w v"
proof (induction vs arbitrary: n)
  case Nil
  then show ?case by simp
next
  case (Cons w ws)
  note z = zip_upt_Cons [of w ws n]
  from Cons.prems z have nw: "\<not> tuple_eq w v" and r: "dict_get (zip ws [Suc n..<Suc n + length ws]) v = None"
    by (auto split: if_splits)
  from Cons.IH [OF r] nw show ?case by simp
qed

lemma dict_get_self:
  "pairwise_distinct vs \<Longrightarrow> i < length vs \<Longrightarrow> tuple_eq (vs ! i) (vs ! i) \<Longrightarrow>
     dict_get (zip vs [n..<n + length vs]) (vs ! i) = Some (n + i)"
proof (induction vs arbitrary: n i)
  case Nil
  then show ?case by simp
next
  case (Cons w ws)
  note z = zip_upt_Cons [of w ws n]
  show ?case
  proof (cases i)
    case 0
    with Cons.prems z show ?thesis by simp
  next
    case (Suc k)
    with Cons.prems have k: "k < length ws" and pd: "pairwise_distinct ws"
      and nw: "\<not> tuple_eq w (ws ! k)" and rf: "tuple_eq (ws ! k) (ws ! k)"
      by (auto simp: pairwise_distinct_def)
    from Cons.IH [OF pd k rf, of "Suc n"] nw z Suc show ?thesis by simp
  qed
qed

lemma add_vertex_step:
  assumes inv: "dict_inv vs m" and av: "add_vertex v vs m = (i, vs1, m1)"
  shows "dict_inv vs1 m1 \<and> i < length vs1 \<and> (vs1 = vs \<or> vs1 = vs @ [v]) \<and>
         vertex_same (vs1 ! i) v \<and> add_vertex (vs1 ! i) vs m = (i, vs1, m1)"
proof -
  from inv have m: "m = zip vs [0..<0 + length vs]" and pd: "pairwise_distinct vs"
    by (simp_all add: dict_inv_def)
  show ?thesis
  proof (cases "dict_get m v")
    case None
    with av have e: "i = length vs" "vs1 = vs @ [v]" "m1 = m @ [(v, length vs)]"
      by (auto simp: add_vertex_def)
    from None m dict_get_None have "\<forall>w\<in>set vs. \<not> tuple_eq w v" by blast
    with pd have "pairwise_distinct (vs @ [v])"
      by (simp add: pairwise_distinct_def sorted_wrt_append)
    moreover have "m @ [(v, length vs)] = zip (vs @ [v]) [0..<length (vs @ [v])]"
      using m by simp
    ultimately show ?thesis using e av inv by (simp add: dict_inv_def vertex_same_refl)
  next
    case (Some k)
    with av have e: "i = k" "vs1 = vs" "m1 = m" by (auto simp: add_vertex_def)
    from Some m have "dict_get (zip vs [0..<0 + length vs]) v = Some k" by simp
    from dict_get_Some [OF this] have k: "k < length vs" and te: "tuple_eq (vs ! k) v" by simp_all
    from dict_get_self [OF pd k tuple_eq_refl_left [OF te], of 0] m
    have "dict_get m (vs ! k) = Some k" by simp
    then have "add_vertex (vs ! k) vs m = (k, vs, m)" by (simp add: add_vertex_def)
    with e k te inv show ?thesis by (simp add: tuple_eq_same)
  qed
qed

lemma add_vertex_ext:
  assumes "dict_inv vs m" and "add_vertex v vs m = (i, vs1, m1)"
  obtains e where "vs1 = vs @ e" and "length e \<le> 1" and "dict_inv vs1 m1" and "i < length vs1"
    and "vertex_same (vs1 ! i) v" and "add_vertex (vs1 ! i) vs m = (i, vs1, m1)"
proof -
  from add_vertex_step [OF assms]
  have s: "dict_inv vs1 m1" "i < length vs1" "vs1 = vs \<or> vs1 = vs @ [v]"
    "vertex_same (vs1 ! i) v" "add_vertex (vs1 ! i) vs m = (i, vs1, m1)" by simp_all
  from s(3) have "vs1 = vs @ [] \<or> vs1 = vs @ [v]" by simp
  then show thesis
  proof
    assume "vs1 = vs @ []"
    with s that [of "[]"] show thesis by simp
  next
    assume "vs1 = vs @ [v]"
    with s that [of "[v]"] show thesis by simp
  qed
qed

lemma reproduces_append:
  "reproduces vs t r \<Longrightarrow> reproduces (vs @ e) t r"
  by (cases t; cases r) (auto simp: nth_append)

lemma stl_loop_props:
  assumes "dict_inv vs m" and "stl_loop raw vs m ts = (vs', ts')"
  shows "\<exists>e new. vs' = vs @ e \<and> length e \<le> 3 * length raw \<and> ts' = ts @ new \<and>
           pairwise_distinct vs' \<and> list_all2 (reproduces vs') new raw \<and>
           stl_loop (expand vs' new) vs m ts = (vs', ts')"
  using assms
proof (induction raw arbitrary: vs m ts)
  case Nil
  then show ?case by (simp add: dict_inv_def expand_def)
next
  case (Cons r rest)
  obtain a b c where r: "r = (a, b, c)" by (cases r) auto
  obtain i vs1 m1 where a1: "add_vertex a vs m = (i, vs1, m1)" by (cases "add_vertex a vs m") auto
  obtain j vs2 m2 where a2: "add_vertex b vs1 m1 = (j, vs2, m2)" by (cases "add_vertex b vs1 m1") auto
  obtain k vs3 m3 where a3: "add_vertex c vs2 m2 = (k, vs3, m3)" by (cases "add_vertex c vs2 m2") auto
  from add_vertex_ext [OF Cons.prems(1) a1] obtain e1 where
    s1: "vs1 = vs @ e1" "length e1 \<le> 1" "dict_inv vs1 m1" "i < length vs1"
      "vertex_same (vs1 ! i) a" "add_vertex (vs1 ! i) vs m = (i, vs1, m1)" by blast
  from add_vertex_ext [OF s1(3) a2] obtain e2 where
    s2: "vs2 = vs1 @ e2" "length e2 \<le> 1" "dict_inv vs2 m2" "j < length vs2"
      "vertex_same (vs2 ! j) b" "add_vertex (vs2 ! j) vs1 m1 = (j, vs2, m2)" by blast
  from add_vertex_ext [OF s2(3) a3] obtain e3 where
    s3: "vs3 = vs2 @ e3" "length e3 \<le> 1" "dict_inv vs3 m3" "k < length vs3"
      "vertex_same (vs3 ! k) c" "add_vertex (vs3 ! k) vs2 m2 = (k, vs3, m3)" by blast
  from Cons.prems(2) r a1 a2 a3
  have run: "stl_loop rest vs3 m3 (ts @ [(i, j, k)]) = (vs', ts')" by simp
  from Cons.IH [OF s3(3) run] obtain e new where
    ih: "vs' = vs3 @ e" "length e \<le> 3 * length rest" "ts' = (ts @ [(i, j, k)]) @ new"
      "pairwise_distinct vs'" "list_all2 (reproduces vs') new rest"
      "stl_loop (expand vs' new) vs3 m3 (ts @ [(i, j, k)]) = (vs', ts')" by blast
  have ni: "vs' ! i = vs1 ! i" using s1(4) s2(1) s3(1) ih(1) by (simp add: nth_append)
  have nj: "vs' ! j = vs2 ! j" using s2(4) s3(1) ih(1) by (simp add: nth_append)
  have nk: "vs' ! k = vs3 ! k" using s3(4) ih(1) by (simp add: nth_append)
  have rep: "reproduces vs' (i, j, k) (a, b, c)"
    using ni nj nk s1(4,5) s2(1,4,5) s3(1,4,5) ih(1) by simp
  have replay: "stl_loop (expand vs' ((i, j, k) # new)) vs m ts = (vs', ts')"
    using ni nj nk s1(6) s2(6) s3(6) ih(6) by (simp add: expand_def)
  have "vs' = vs @ (e1 @ e2 @ e3 @ e)" using s1(1) s2(1) s3(1) ih(1) by simp
  moreover have "length (e1 @ e2 @ e3 @ e) \<le> 3 * length (r # rest)"
    using s1(2) s2(2) s3(2) ih(2) by simp
  moreover have "ts' = ts @ ((i, j, k) # new)" using ih(3) by simp
  moreover have "list_all2 (reproduces vs') ((i, j, k) # new) (r # rest)"
    using rep ih(5) r by simp
  ultimately show ?case using ih(4) replay by blast
qed

lemma float_eq_trans: "float_eq a b \<Longrightarrow> float_eq b c \<Longrightarrow> float_eq a c"
  by (auto simp: float_eq_def)

lemma tuple_eq_trans: "tuple_eq a b \<Longrightarrow> tuple_eq b c \<Longrightarrow> tuple_eq a c"
  by (cases a; cases b; cases c) (auto intro: float_eq_trans)

lemma dict_inv_empty: "dict_inv [] []"
  by (simp add: dict_inv_def pairwise_distinct_def)

lemma stl_loop_corners:
  "stl_loop raw vs m ts = (vs', ts') \<Longrightarrow> set vs' \<subseteq> set vs \<union> set (corners raw)"
proof (induction raw arbitrary: vs m ts)
  case Nil
  then show ?case by simp
next
  case (Cons r rest)
  obtain a b c where r: "r = (a, b, c)" by (cases r) auto
  obtain i vs1 m1 where a1: "add_vertex a vs m = (i, vs1, m1)" by (cases "add_vertex a vs m") auto
  obtain j vs2 m2 where a2: "add_vertex b vs1 m1 = (j, vs2, m2)" by (cases "add_vertex b vs1 m1") auto
  obtain k vs3 m3 where a3: "add_vertex c vs2 m2 = (k, vs3, m3)" by (cases "add_vertex c vs2 m2") auto
  from a1 have "set vs1 \<subseteq> set vs \<union> {a}" by (auto simp: add_vertex_def split: option.splits)
  moreover from a2 have "set vs2 \<subseteq> set vs1 \<union> {b}" by (auto simp: add_vertex_def split: option.splits)
  moreover from a3 have "set vs3 \<subseteq> set vs2 \<union> {c}" by (auto simp: add_vertex_def split: option.splits)
  moreover from Cons.prems r a1 a2 a3
  have "stl_loop rest vs3 m3 (ts @ [(i, j, k)]) = (vs', ts')" by simp
  from Cons.IH [OF this] have "set vs' \<subseteq> set vs3 \<union> set (corners rest)" .
  ultimately show ?case using r by auto
qed

lemma vertex_same_exact:
  "vertex_same u w \<Longrightarrow> neg_zero_free u \<Longrightarrow> neg_zero_free w \<Longrightarrow> u = w"
  by (cases u; cases w) (auto simp: coord_same_def is_zero_def)

lemma reproduces_exact:
  assumes "list_all2 (reproduces vs) ts raw" and "list_all neg_zero_free vs"
    and "list_all neg_zero_free (corners raw)"
  shows "expand vs ts = raw"
  using assms
proof (induction ts raw rule: list_all2_induct)
  case Nil
  then show ?case by (simp add: expand_def)
next
  case (Cons t ts r raw)
  obtain i j k where t: "t = (i, j, k)" by (cases t) auto
  obtain a b c where r: "r = (a, b, c)" by (cases r) auto
  from Cons.prems(1) have nz: "\<And>n. n < length vs \<Longrightarrow> neg_zero_free (vs ! n)"
    by (simp add: list_all_length)
  from Cons.hyps(1) Cons.prems(2) t r nz
  have "vs ! i = a" "vs ! j = b" "vs ! k = c"
    by (auto intro: vertex_same_exact)
  moreover from Cons.IH Cons.prems r have "expand vs ts = raw" by simp
  ultimately show ?case using t r by (simp add: expand_def)
qed

lemma sample_from_file:
  "from_file sample_env ''plate.stl'' = Some square_mesh"
  "from_file sample_env ''text.stl'' = Some signed_zero_mesh"
  "from_file sample_env ''again.stl'' = Some [(p0, p1, p2), (p0, p2, p1)]"
  by (simp_all add: sample_env_def sample_files_def)

lemma stl_to_vertices_triangles_Inr:
  assumes "from_file env f = Some mesh"
  shows "\<exists>vs ts. stl_to_vertices_triangles env f = Inr (vs, ts) \<and> stl_loop mesh [] [] [] = (vs, ts)"
  using assms by (cases "stl_loop mesh [] [] []") (simp add: stl_to_vertices_triangles_def)




text \<open>
  A NaN coordinate makes a vertex unequal to every key, itself included: each of its
  occurrences gets an entry of its own, and the entries still differ by the key test.
\<close>

lemma nan_vertices_both_kept:
  "stl_loop nan_mesh [] [] [] = ([q_nan, q_nan, p0], [(0, 1, 2)]) \<and>
   pairwise_distinct [q_nan, q_nan, p0]"
  by (simp add: nan_mesh_def add_vertex_def pairwise_distinct_def sample_points)





text \<open>
  C8. Deduplication is idempotent: when a mesh gave the vertex table \<open>vs\<close> and the
  index triangles \<open>ts\<close>, a mesh file that holds their expansion back into raw triangles
  gives the same vertex table and the same index triangles again.
\<close>

theorem dedup_idempotent:
  assumes "stl_to_vertices_triangles env f = Inr (vs, ts)"
    and "from_file env g = Some (expand vs ts)"
  shows "stl_to_vertices_triangles env g = Inr (vs, ts)"
proof -
  from assms(1) obtain mesh where l: "stl_loop mesh [] [] [] = (vs, ts)"
    by (auto simp: stl_to_vertices_triangles_def split: option.splits)
  from stl_loop_props [OF dict_inv_empty l] obtain new where
    "ts = [] @ new" "stl_loop (expand vs new) [] [] [] = (vs, ts)" by blast
  then have "stl_loop (expand vs ts) [] [] [] = (vs, ts)" by simp
  with assms(2) show ?thesis by (simp add: stl_to_vertices_triangles_def)
qed

theorem dedup_idempotent_witness:
  "stl_to_vertices_triangles sample_env ''text.stl'' = Inr ([p0, p1, p2], [(0, 1, 2), (0, 2, 1)]) \<and>
   from_file sample_env ''again.stl'' = Some (expand [p0, p1, p2] [(0, 1, 2), (0, 2, 1)]) \<and>
   stl_to_vertices_triangles sample_env ''again.stl'' = Inr ([p0, p1, p2], [(0, 1, 2), (0, 2, 1)])"
proof -
  have h1: "stl_to_vertices_triangles sample_env ''text.stl'' = Inr ([p0, p1, p2], [(0, 1, 2), (0, 2, 1)])"
    by (simp add: stl_to_vertices_triangles_def sample_from_file signed_zero_mesh_def
        add_vertex_def sample_points)
  have h2: "from_file sample_env ''again.stl'' = Some (expand [p0, p1, p2] [(0, 1, 2), (0, 2, 1)])"
    by (simp add: sample_from_file expand_def)
  from dedup_idempotent [OF h1 h2] h1 h2 show ?thesis by blast
qed

text \<open>
  C10 (amended). For every mesh that numpy-stl can read, the i-th index triangle
  reproduces the i-th raw triangle through the returned vertex table: its three indices
  are in range and select the three corners in their order within the triangle, each
  coordinate bit for bit or a zero for a zero of the other sign. For a mesh without a
  negative zero coordinate the expansion of the output is the mesh itself.
\<close>

theorem dedup_reproduces:
  assumes "from_file env f = Some mesh"
  shows "\<exists>vs ts. stl_to_vertices_triangles env f = Inr (vs, ts) \<and>
           list_all2 (reproduces vs) ts mesh \<and>
           (list_all neg_zero_free (corners mesh) \<longrightarrow> expand vs ts = mesh)"
proof -
  from stl_to_vertices_triangles_Inr [OF assms] obtain vs ts where
    r: "stl_to_vertices_triangles env f = Inr (vs, ts)" and l: "stl_loop mesh [] [] [] = (vs, ts)"
    by blast
  from stl_loop_props [OF dict_inv_empty l] obtain new where
    "ts = [] @ new" "list_all2 (reproduces vs) new mesh" by blast
  then have rep: "list_all2 (reproduces vs) ts mesh" by simp
  have "expand vs ts = mesh" if nz: "list_all neg_zero_free (corners mesh)"
  proof -
    from stl_loop_corners [OF l] have "set vs \<subseteq> set (corners mesh)" by simp
    with nz have "list_all neg_zero_free vs" by (auto simp: list_all_iff)
    from reproduces_exact [OF rep this nz] show ?thesis .
  qed
  with r rep show ?thesis by blast
qed

theorem dedup_reproduces_witness:
  "from_file sample_env ''plate.stl'' = Some square_mesh \<and>
   list_all neg_zero_free (corners square_mesh) \<and>
   (\<exists>vs ts. stl_to_vertices_triangles sample_env ''plate.stl'' = Inr (vs, ts) \<and>
      list_all2 (reproduces vs) ts square_mesh \<and> expand vs ts = square_mesh)"
proof -
  have h: "from_file sample_env ''plate.stl'' = Some square_mesh" by (rule sample_from_file)
  have nz: "list_all neg_zero_free (corners square_mesh)"
    by (simp add: square_mesh_def sample_points)
  from dedup_reproduces [OF h] nz h show ?thesis by blast
qed

text \<open>
  The corner a triangle gets back through the table need not be the corner it had, bit
  for bit: in the second triangle of \<open>signed_zero_mesh\<close> the corner (-0.0, 0, 0) finds
  the stored key (0.0, 0, 0), and the expansion differs from the mesh.
\<close>

theorem dedup_exact_counterexample:
  "from_file sample_env ''text.stl'' = Some signed_zero_mesh \<and>
   stl_to_vertices_triangles sample_env ''text.stl'' = Inr ([p0, p1, p2], [(0, 1, 2), (0, 2, 1)]) \<and>
   expand [p0, p1, p2] [(0, 1, 2), (0, 2, 1)] \<noteq> signed_zero_mesh"
  by (simp add: stl_to_vertices_triangles_def sample_from_file signed_zero_mesh_def
      add_vertex_def expand_def sample_points)

section \<open>The colour pass\<close>

text \<open>One pass of the colour loop body, as the loop applies it.\<close>

lemma color_loop_snoc:
  "color_loop (parts @ [p]) bases cm cid =
     (case color_loop parts bases cm cid of (bases', cm', cid') \<Rightarrow>
        (case cm' (part_color p) of
           Some i \<Rightarrow> (bases', cm', cid')
         | None \<Rightarrow> (bases' @ [base_elem (base_name p cid') (part_color p)],
                    cm'(part_color p \<mapsto> cid'), cid' + 1)))"
  by (induction parts arbitrary: bases cm cid) (auto simp: Let_def split: option.splits)

lemma color_loop_length:
  "color_loop parts bases cm (length bases) = (bases', cm', cid') \<Longrightarrow> cid' = length bases'"
proof (induction parts arbitrary: bases cm)
  case Nil
  then show ?case by auto
next
  case (Cons p ps)
  show ?case
  proof (cases "cm (part_color p)")
    case None
    with Cons.prems
    have "color_loop ps (bases @ [base_elem (base_name p (length bases)) (part_color p)])
        (cm(part_color p \<mapsto> length bases))
        (length (bases @ [base_elem (base_name p (length bases)) (part_color p)])) = (bases', cm', cid')"
      by (simp add: Let_def)
    from Cons.IH [OF this] show ?thesis .
  next
    case (Some i)
    with Cons.prems have "color_loop ps bases cm (length bases) = (bases', cm', cid')"
      by (simp add: Let_def)
    from Cons.IH [OF this] show ?thesis .
  qed
qed

lemma color_loop_range:
  "color_loop parts bases cm cid = (bases', cm', cid') \<Longrightarrow>
     (\<forall>c i. cm c = Some i \<longrightarrow> i < cid) \<Longrightarrow>
     (\<forall>c i. cm' c = Some i \<longrightarrow> i < cid') \<and> cid \<le> cid'"
proof (induction parts arbitrary: bases cm cid)
  case Nil
  then show ?case by simp
next
  case (Cons p ps)
  show ?case
  proof (cases "cm (part_color p)")
    case None
    with Cons.prems(1)
    have run: "color_loop ps (bases @ [base_elem (base_name p cid) (part_color p)])
        (cm(part_color p \<mapsto> cid)) (cid + 1) = (bases', cm', cid')" by (simp add: Let_def)
    have "\<forall>c i. (cm(part_color p \<mapsto> cid)) c = Some i \<longrightarrow> i < cid + 1"
      using Cons.prems(2) by (auto simp: less_Suc_eq)
    from Cons.IH [OF run this] show ?thesis by simp
  next
    case (Some i)
    with Cons.prems(1) have "color_loop ps bases cm cid = (bases', cm', cid')" by (simp add: Let_def)
    from Cons.IH [OF this Cons.prems(2)] show ?thesis .
  qed
qed

lemma color_loop_keeps:
  "color_loop parts bases cm cid = (bases', cm', cid') \<Longrightarrow> cm c = Some i \<Longrightarrow> cm' c = Some i"
proof (induction parts arbitrary: bases cm cid)
  case Nil
  then show ?case by simp
next
  case (Cons p ps)
  show ?case
  proof (cases "cm (part_color p)")
    case None
    with Cons.prems(1)
    have run: "color_loop ps (bases @ [base_elem (base_name p cid) (part_color p)])
        (cm(part_color p \<mapsto> cid)) (cid + 1) = (bases', cm', cid')" by (simp add: Let_def)
    from None Cons.prems(2) have "(cm(part_color p \<mapsto> cid)) c = Some i" by auto
    from Cons.IH [OF run this] show ?thesis .
  next
    case (Some j)
    with Cons.prems(1) have "color_loop ps bases cm cid = (bases', cm', cid')" by (simp add: Let_def)
    from Cons.IH [OF this Cons.prems(2)] show ?thesis .
  qed
qed

lemma color_loop_covers:
  "color_loop parts bases cm cid = (bases', cm', cid') \<Longrightarrow> p \<in> set parts \<Longrightarrow>
     cm' (part_color p) \<noteq> None"
proof (induction parts arbitrary: bases cm cid)
  case Nil
  then show ?case by simp
next
  case (Cons q qs)
  show ?case
  proof (cases "cm (part_color q)")
    case None
    with Cons.prems(1)
    have run: "color_loop qs (bases @ [base_elem (base_name q cid) (part_color q)])
        (cm(part_color q \<mapsto> cid)) (cid + 1) = (bases', cm', cid')" by (simp add: Let_def)
    show ?thesis
    proof (cases "p = q")
      case True
      have "(cm(part_color q \<mapsto> cid)) (part_color q) = Some cid" by simp
      from color_loop_keeps [OF run this] True show ?thesis by simp
    next
      case False
      with Cons.prems(2) have "p \<in> set qs" by simp
      from Cons.IH [OF run this] show ?thesis .
    qed
  next
    case (Some i)
    with Cons.prems(1) have run: "color_loop qs bases cm cid = (bases', cm', cid')"
      by (simp add: Let_def)
    show ?thesis
    proof (cases "p = q")
      case True
      from color_loop_keeps [OF run Some] True show ?thesis by simp
    next
      case False
      with Cons.prems(2) have "p \<in> set qs" by simp
      from Cons.IH [OF run this] show ?thesis .
    qed
  qed
qed

lemma color_loop_append:
  "color_loop (xs @ ys) bases cm cid =
     (case color_loop xs bases cm cid of (bases', cm', cid') \<Rightarrow> color_loop ys bases' cm' cid')"
  by (induction xs arbitrary: bases cm cid) (simp_all add: Let_def)

lemma color_loop_dom:
  "color_loop parts bases cm cid = (bases', cm', cid') \<Longrightarrow> cm' c \<noteq> None \<Longrightarrow>
     cm c \<noteq> None \<or> c \<in> set (map part_color parts)"
proof (induction parts arbitrary: bases cm cid)
  case Nil
  then show ?case by simp
next
  case (Cons p ps)
  show ?case
  proof (cases "cm (part_color p)")
    case None
    with Cons.prems(1)
    have run: "color_loop ps (bases @ [base_elem (base_name p cid) (part_color p)])
        (cm(part_color p \<mapsto> cid)) (cid + 1) = (bases', cm', cid')" by (simp add: Let_def)
    from Cons.IH [OF run Cons.prems(2)] show ?thesis by (auto split: if_splits)
  next
    case (Some i)
    with Cons.prems(1) have "color_loop ps bases cm cid = (bases', cm', cid')" by (simp add: Let_def)
    from Cons.IH [OF this Cons.prems(2)] show ?thesis by auto
  qed
qed

lemma color_loop_prefix:
  "color_loop parts bases cm cid = (bases', cm', cid') \<Longrightarrow> \<exists>ext. bases' = bases @ ext"
proof (induction parts arbitrary: bases cm cid)
  case Nil
  then show ?case by simp
next
  case (Cons p ps)
  show ?case
  proof (cases "cm (part_color p)")
    case None
    with Cons.prems
    have run: "color_loop ps (bases @ [base_elem (base_name p cid) (part_color p)])
        (cm(part_color p \<mapsto> cid)) (cid + 1) = (bases', cm', cid')" by (simp add: Let_def)
    from Cons.IH [OF run] show ?thesis by auto
  next
    case (Some i)
    with Cons.prems have "color_loop ps bases cm cid = (bases', cm', cid')" by (simp add: Let_def)
    from Cons.IH [OF this] show ?thesis .
  qed
qed

lemma base_elem_attrs:
  "get_attr (base_elem n c) ''name'' = Some n" "get_attr (base_elem n c) ''displaycolor'' = Some c"
  by (simp_all add: base_elem_def get_attr_def)

text \<open>
  The part that introduces a colour gives the entry its name: when no part before \<open>p\<close>
  has the colour of \<open>p\<close>, the colour of \<open>p\<close> ends with the index \<open>p\<close> was given, and
  the entry at that index carries the name and the colour of \<open>p\<close>, whatever follows.
\<close>

lemma first_writer_wins:
  assumes "\<forall>q\<in>set pre. part_color q \<noteq> part_color p"
  shows "\<exists>bases cm i. color_loop (pre @ p # post) [] Map.empty 0 = (bases, cm, length bases) \<and>
           cm (part_color p) = Some i \<and> i < length bases \<and>
           i = length (fst (color_loop pre [] Map.empty 0)) \<and>
           get_attr (bases ! i) ''name'' = Some (base_name p i) \<and>
           get_attr (bases ! i) ''displaycolor'' = Some (part_color p)"
proof -
  obtain b0 cm0 c0 where pre: "color_loop pre [] Map.empty 0 = (b0, cm0, c0)"
    by (cases "color_loop pre [] Map.empty 0") auto
  from pre have "color_loop pre [] Map.empty (length ([]::xml list)) = (b0, cm0, c0)" by simp
  from color_loop_length [OF this] have c0: "c0 = length b0" .
  have none: "cm0 (part_color p) = None"
  proof (rule ccontr)
    assume "cm0 (part_color p) \<noteq> None"
    from color_loop_dom [OF pre this] assms show False by auto
  qed
  define e where "e = base_elem (base_name p (length b0)) (part_color p)"
  obtain bases cm cid where post:
    "color_loop post (b0 @ [e]) (cm0(part_color p \<mapsto> length b0)) (length (b0 @ [e])) = (bases, cm, cid)"
    by (cases "color_loop post (b0 @ [e]) (cm0(part_color p \<mapsto> length b0)) (length (b0 @ [e]))") auto
  from color_loop_length [OF post] have cid: "cid = length bases" .
  have whole: "color_loop (pre @ p # post) [] Map.empty 0 = (bases, cm, length bases)"
    using pre c0 none post cid by (simp add: color_loop_append Let_def e_def)
  have "(cm0(part_color p \<mapsto> length b0)) (part_color p) = Some (length b0)" by simp
  from color_loop_keeps [OF post this] have idx: "cm (part_color p) = Some (length b0)" .
  from color_loop_prefix [OF post] obtain ext where ext: "bases = (b0 @ [e]) @ ext" by blast
  then have nth: "bases ! length b0 = e" and lt: "length b0 < length bases"
    by (simp_all add: nth_append)
  from nth have "get_attr (bases ! length b0) ''name'' = Some (base_name p (length b0))"
    "get_attr (bases ! length b0) ''displaycolor'' = Some (part_color p)"
    by (simp_all add: e_def base_elem_attrs)
  with whole idx lt pre show ?thesis by simp
qed

text \<open>
  C5. The colour pass registers materials first writer wins. It starts from the empty
  registry with the next index 0. After any list of parts the next index is the number
  of entries, and one more part \<open>p\<close> changes the registry as follows: when its colour
  has an index already, nothing changes (the index stays, the name of \<open>p\<close> is ignored);
  otherwise the colour gets the next index and one entry is appended, whose
  \<^verbatim>\<open>name\<close> and \<^verbatim>\<open>displaycolor\<close> attributes are the name and the colour of \<open>p\<close>. At the
  end of the pass the colour of a part has the index given to the first part of that
  colour, and the entry at that index has the name of that first part. Two parts of
  colour \<^verbatim>\<open>#1A1A1A\<close>, whatever their names, give exactly one entry, with the name of
  the first part, at index 0.
\<close>

theorem material_registration:
  "color_loop [] [] Map.empty 0 = ([], Map.empty, 0) \<and>
   (\<exists>bases cm. color_loop parts [] Map.empty 0 = (bases, cm, length bases) \<and>
      color_loop (parts @ [p]) [] Map.empty 0 =
        (case cm (part_color p) of
           Some i \<Rightarrow> (bases, cm, length bases)
         | None \<Rightarrow> (bases @ [base_elem (base_name p (length bases)) (part_color p)],
                    cm(part_color p \<mapsto> length bases), length bases + 1))) \<and>
   get_attr (base_elem n c) ''name'' = Some n \<and>
   get_attr (base_elem n c) ''displaycolor'' = Some c \<and>
   ((\<forall>q\<in>set pre. part_color q \<noteq> part_color p') \<and> part_color q' = part_color p' \<longrightarrow>
      (\<exists>bases cm i. color_loop (pre @ p' # post) [] Map.empty 0 = (bases, cm, length bases) \<and>
         cm (part_color q') = Some i \<and> i < length bases \<and>
         i = length (fst (color_loop pre [] Map.empty 0)) \<and>
         get_attr (bases ! i) ''name'' = Some (base_name p' i) \<and>
         get_attr (bases ! i) ''displaycolor'' = Some (part_color p'))) \<and>
   color_loop [[''file'' \<mapsto> f1, ''color'' \<mapsto> ''#1A1A1A'', ''name'' \<mapsto> n1],
               [''file'' \<mapsto> f2, ''color'' \<mapsto> ''#1A1A1A'', ''name'' \<mapsto> n2]] [] Map.empty 0 =
     ([base_elem n1 ''#1A1A1A''], [''#1A1A1A'' \<mapsto> 0], 1) \<and>
   map (\<lambda>b. (get_attr b ''name'', get_attr b ''displaycolor''))
     (fst (color_loop [[''file'' \<mapsto> f1, ''color'' \<mapsto> ''#1A1A1A'', ''name'' \<mapsto> n1],
                       [''file'' \<mapsto> f2, ''color'' \<mapsto> ''#1A1A1A'', ''name'' \<mapsto> n2]] [] Map.empty 0)) =
     [(Some n1, Some ''#1A1A1A'')]"
proof -
  obtain bases cm cid where r: "color_loop parts [] Map.empty 0 = (bases, cm, cid)"
    by (cases "color_loop parts [] Map.empty 0") auto
  from r have "color_loop parts [] Map.empty (length ([]::xml list)) = (bases, cm, cid)" by simp
  from color_loop_length [OF this] have cid: "cid = length bases" .
  have step: "color_loop (parts @ [p]) [] Map.empty 0 =
        (case cm (part_color p) of
           Some i \<Rightarrow> (bases, cm, length bases)
         | None \<Rightarrow> (bases @ [base_elem (base_name p (length bases)) (part_color p)],
                    cm(part_color p \<mapsto> length bases), length bases + 1))"
    using r cid by (simp add: color_loop_snoc)
  have two: "color_loop [[''file'' \<mapsto> f1, ''color'' \<mapsto> ''#1A1A1A'', ''name'' \<mapsto> n1],
               [''file'' \<mapsto> f2, ''color'' \<mapsto> ''#1A1A1A'', ''name'' \<mapsto> n2]] [] Map.empty 0 =
     ([base_elem n1 ''#1A1A1A''], [''#1A1A1A'' \<mapsto> 0], 1)"
    by (simp add: part_color_def base_name_def Let_def)
  have attrs: "map (\<lambda>b. (get_attr b ''name'', get_attr b ''displaycolor''))
     (fst (color_loop [[''file'' \<mapsto> f1, ''color'' \<mapsto> ''#1A1A1A'', ''name'' \<mapsto> n1],
                       [''file'' \<mapsto> f2, ''color'' \<mapsto> ''#1A1A1A'', ''name'' \<mapsto> n2]] [] Map.empty 0)) =
     [(Some n1, Some ''#1A1A1A'')]"
    by (simp only: two fst_conv list.map base_elem_attrs)
  have fw: "(\<forall>q\<in>set pre. part_color q \<noteq> part_color p') \<and> part_color q' = part_color p' \<longrightarrow>
      (\<exists>bases cm i. color_loop (pre @ p' # post) [] Map.empty 0 = (bases, cm, length bases) \<and>
         cm (part_color q') = Some i \<and> i < length bases \<and>
         i = length (fst (color_loop pre [] Map.empty 0)) \<and>
         get_attr (bases ! i) ''name'' = Some (base_name p' i) \<and>
         get_attr (bases ! i) ''displaycolor'' = Some (part_color p'))"
  proof
    assume a: "(\<forall>q\<in>set pre. part_color q \<noteq> part_color p') \<and> part_color q' = part_color p'"
    then have "\<forall>q\<in>set pre. part_color q \<noteq> part_color p'" by blast
    from first_writer_wins [OF this, of post] a
    show "\<exists>bases cm i. color_loop (pre @ p' # post) [] Map.empty 0 = (bases, cm, length bases) \<and>
         cm (part_color q') = Some i \<and> i < length bases \<and>
         i = length (fst (color_loop pre [] Map.empty 0)) \<and>
         get_attr (bases ! i) ''name'' = Some (base_name p' i) \<and>
         get_attr (bases ! i) ''displaycolor'' = Some (part_color p')"
      by simp
  qed
  from r cid step have "\<exists>bases cm. color_loop parts [] Map.empty 0 = (bases, cm, length bases) \<and>
      color_loop (parts @ [p]) [] Map.empty 0 =
        (case cm (part_color p) of
           Some i \<Rightarrow> (bases, cm, length bases)
         | None \<Rightarrow> (bases @ [base_elem (base_name p (length bases)) (part_color p)],
                    cm(part_color p \<mapsto> length bases), length bases + 1))"
    by simp
  with fw two attrs show ?thesis by (simp only: base_elem_attrs color_loop.simps simp_thms)
qed

theorem material_registration_witness:
  "part_color plate_part \<noteq> part_color text_part \<and> part_color stand_part = part_color text_part \<and>
   (\<exists>bases cm. color_loop [plate_part, text_part, stand_part] [] Map.empty 0 = (bases, cm, 2) \<and>
      cm (part_color stand_part) = Some 1 \<and>
      get_attr (bases ! 1) ''name'' = Some ''Sign Text'' \<and>
      get_attr (bases ! 1) ''displaycolor'' = Some ''#1A1A1A'')"
proof -
  have c: "part_color plate_part = ''#F5F5F0''" "part_color text_part = ''#1A1A1A''"
    "part_color stand_part = ''#1A1A1A''"
    by (simp_all add: part_color_def plate_part_def text_part_def stand_part_def)
  have h: "(\<forall>q\<in>set [plate_part]. part_color q \<noteq> part_color text_part) \<and>
      part_color stand_part = part_color text_part" by (simp add: c)
  have pre: "length (fst (color_loop [plate_part] [] Map.empty 0)) = 1"
    by (simp add: Let_def)
  have nm: "base_name text_part 1 = ''Sign Text''" by (simp add: base_name_def text_part_def)
  from material_registration [of _ _ _ _ "[plate_part]" text_part stand_part "[stand_part]"] h
  obtain bases cm i where
    t: "color_loop ([plate_part] @ text_part # [stand_part]) [] Map.empty 0 = (bases, cm, length bases)"
      "cm (part_color stand_part) = Some i" "i = length (fst (color_loop [plate_part] [] Map.empty 0))"
      "get_attr (bases ! i) ''name'' = Some (base_name text_part i)"
      "get_attr (bases ! i) ''displaycolor'' = Some (part_color text_part)"
    by blast
  from t(3) pre have i: "i = 1" by simp
  have "color_loop [plate_part, text_part, stand_part] [] Map.empty 0 =
      ([base_elem (base_name plate_part 0) ''#F5F5F0'', base_elem (base_name text_part 1) ''#1A1A1A''],
       [''#F5F5F0'' \<mapsto> 0, ''#1A1A1A'' \<mapsto> 1], 2)"
    by (simp add: c Let_def)
  with t(1) have "length bases = 2" by simp
  with t i nm c show ?thesis by auto
qed

section \<open>The object pass and the element tree\<close>

lemma reproduces_in_range:
  "list_all2 (reproduces vs) ts mesh \<Longrightarrow>
     list_all (\<lambda>(i, j, k). i < length vs \<and> j < length vs \<and> k < length vs) ts"
proof (induction ts mesh rule: list_all2_induct)
  case Nil
  then show ?case by simp
next
  case (Cons t ts r mesh)
  then show ?case by (cases t; cases r) simp
qed

lemma stl_indices_in_range:
  assumes "stl_to_vertices_triangles env f = Inr (vs, ts)"
  shows "list_all (\<lambda>(i, j, k). i < length vs \<and> j < length vs \<and> k < length vs) ts"
proof -
  from assms obtain mesh where l: "stl_loop mesh [] [] [] = (vs, ts)"
    by (auto simp: stl_to_vertices_triangles_def split: option.splits)
  from stl_loop_props [OF dict_inv_empty l] obtain new where
    "ts = [] @ new" "list_all2 (reproduces vs) new mesh" by blast
  then have "list_all2 (reproduces vs) ts mesh" by simp
  then show ?thesis by (rule reproduces_in_range)
qed

lemma filter_tag_all: "list_all (\<lambda>c. tag c = t) xs \<Longrightarrow> filter (\<lambda>c. tag c = t) xs = xs"
  by (induction xs) auto

lemma filter_tag_none:
  "list_all (\<lambda>c. tag c = t) xs \<Longrightarrow> t \<noteq> t' \<Longrightarrow> filter (\<lambda>c. tag c = t') xs = []"
  by (induction xs) auto

lemma object_elem_attrs:
  "tag (object_elem env oid n ci vs ts) = ''object''"
  "get_attr (object_elem env oid n ci vs ts) ''id'' = Some (str_nat oid)"
  "get_attr (object_elem env oid n ci vs ts) ''name'' = Some n"
  "get_attr (object_elem env oid n ci vs ts) ''pindex'' = Some (str_nat ci)"
  by (simp_all add: object_elem_def get_attr_def)

lemma object_elem_mesh:
  "vertices_of (object_elem env oid n ci vs ts) = map (vertex_elem env) vs"
  "triangles_of (object_elem env oid n ci vs ts) = map triangle_elem ts"
proof -
  have "list_all (\<lambda>c. tag c = ''vertex'') (map (vertex_elem env) vs)"
    by (auto simp: list_all_iff vertex_elem_def split: prod.splits)
  then show "vertices_of (object_elem env oid n ci vs ts) = map (vertex_elem env) vs"
    by (simp add: vertices_of_def object_elem_def filter_tag_all)
  have "list_all (\<lambda>c. tag c = ''triangle'') (map triangle_elem ts)"
    by (auto simp: list_all_iff triangle_elem_def split: prod.splits)
  then show "triangles_of (object_elem env oid n ci vs ts) = map triangle_elem ts"
    by (simp add: triangles_of_def object_elem_def filter_tag_all)
qed

lemma index_attr_I: "get_attr e k = Some (str_nat i) \<Longrightarrow> i < n \<Longrightarrow> index_attr e k n"
  by (auto simp: index_attr_def)

lemma triangle_elem_ok:
  "i < n \<Longrightarrow> j < n \<Longrightarrow> k < n \<Longrightarrow> triangle_ok n (triangle_elem (i, j, k))"
  by (simp add: triangle_ok_def triangle_elem_def index_attr_def get_attr_def)

lemma object_elem_ok:
  assumes "ci < nb" and "list_all (\<lambda>(i, j, k). i < length vs \<and> j < length vs \<and> k < length vs) ts"
  shows "object_ok nb (object_elem env oid n ci vs ts)"
proof -
  have "list_all (triangle_ok (length vs)) (map triangle_elem ts)"
    using assms(2) by (auto simp: list_all_iff intro: triangle_elem_ok)
  with assms(1) show ?thesis
    by (simp add: object_ok_def object_elem_mesh index_attr_I [OF object_elem_attrs(4)])
qed


lemma object_loop_shape:
  assumes "object_loop env cm parts objs oid items = Inr (objs', oid', items')"
  shows "\<exists>new. objs' = objs @ new \<and> items' = items @ [oid..<oid + length new] \<and>
           oid' = oid + length new \<and> length new = length (located env parts) \<and>
           list_all (\<lambda>c. tag c = ''object'') new \<and>
           map (\<lambda>obj. get_attr obj ''id'') new = map (\<lambda>n. Some (str_nat n)) [oid..<oid + length new] \<and>
           map (\<lambda>obj. get_attr obj ''name'') new = map (\<lambda>p. Some (object_name p)) (located env parts)"
  using assms
proof (induction parts arbitrary: objs oid items)
  case Nil
  then show ?case by (simp add: located_def)
next
  case (Cons p ps)
  from Cons.prems obtain f where f: "p ''file'' = Some f" by (cases "p ''file''") auto
  show ?case
  proof (cases "path_exists env f")
    case False
    with Cons.prems f have "object_loop env cm ps objs oid items = Inr (objs', oid', items')"
      by simp
    from Cons.IH [OF this] False f show ?thesis by (simp add: located_def part_exists_def)
  next
    case True
    with Cons.prems f obtain vs ts where
      st: "stl_to_vertices_triangles env f = Inr (vs, ts)"
      by (cases "stl_to_vertices_triangles env f") auto
    define obj where "obj = object_elem env oid (case p ''name'' of Some n \<Rightarrow> n | None \<Rightarrow> basename f)
        (case cm (part_color p) of Some i \<Rightarrow> i | None \<Rightarrow> 0) vs ts"
    from Cons.prems f True st
    have run: "object_loop env cm ps (objs @ [obj]) (oid + 1) (items @ [oid]) = Inr (objs', oid', items')"
      by (simp add: obj_def Let_def)
    from Cons.IH [OF run] obtain new where
      ih: "objs' = (objs @ [obj]) @ new" "items' = (items @ [oid]) @ [oid + 1..<oid + 1 + length new]"
        "oid' = oid + 1 + length new" "length new = length (located env ps)"
        "list_all (\<lambda>c. tag c = ''object'') new"
        "map (\<lambda>obj. get_attr obj ''id'') new = map (\<lambda>n. Some (str_nat n)) [oid + 1..<oid + 1 + length new]"
        "map (\<lambda>obj. get_attr obj ''name'') new = map (\<lambda>p. Some (object_name p)) (located env ps)"
      by blast
    have nm: "get_attr obj ''name'' = Some (object_name p)"
      using f by (simp add: obj_def object_elem_attrs object_name_def split: option.splits)
    have loc: "located env (p # ps) = p # located env ps"
      using f True by (simp add: located_def part_exists_def)
    have up: "[oid..<oid + length (obj # new)] = oid # [oid + 1..<oid + 1 + length new]"
      by (simp add: upt_conv_Cons del: upt_Suc)
    have "objs' = objs @ (obj # new)" using ih(1) by simp
    moreover have "items' = items @ [oid..<oid + length (obj # new)]" using ih(2) up by simp
    moreover have "oid' = oid + length (obj # new)" using ih(3) by simp
    moreover have "length (obj # new) = length (located env (p # ps))" using ih(4) loc by simp
    moreover have "list_all (\<lambda>c. tag c = ''object'') (obj # new)"
      using ih(5) by (simp add: obj_def object_elem_attrs)
    moreover have "map (\<lambda>obj. get_attr obj ''id'') (obj # new) =
        map (\<lambda>n. Some (str_nat n)) [oid..<oid + length (obj # new)]"
      using ih(6) up by (simp add: obj_def object_elem_attrs)
    moreover have "map (\<lambda>obj. get_attr obj ''name'') (obj # new) =
        map (\<lambda>p. Some (object_name p)) (located env (p # ps))"
      using ih(7) nm loc by simp
    ultimately show ?thesis by blast
  qed
qed

lemma object_loop_ok:
  assumes "object_loop env cm parts objs oid items = Inr (objs', oid', items')"
    and "\<forall>p\<in>set parts. \<exists>i<nb. cm (part_color p) = Some i"
    and "list_all (object_ok nb) objs"
  shows "list_all (object_ok nb) objs'"
  using assms
proof (induction parts arbitrary: objs oid items)
  case Nil
  then show ?case by simp
next
  case (Cons p ps)
  from Cons.prems(1) obtain f where f: "p ''file'' = Some f" by (cases "p ''file''") auto
  from Cons.prems(2) have rest: "\<forall>p\<in>set ps. \<exists>i<nb. cm (part_color p) = Some i" by simp
  show ?case
  proof (cases "path_exists env f")
    case False
    with Cons.prems(1) f have "object_loop env cm ps objs oid items = Inr (objs', oid', items')"
      by simp
    from Cons.IH [OF this rest Cons.prems(3)] show ?thesis .
  next
    case True
    with Cons.prems(1) f obtain vs ts where
      st: "stl_to_vertices_triangles env f = Inr (vs, ts)"
      by (cases "stl_to_vertices_triangles env f") auto
    from Cons.prems(2) obtain i where i: "i < nb" "cm (part_color p) = Some i" by auto
    define obj where "obj = object_elem env oid (case p ''name'' of Some n \<Rightarrow> n | None \<Rightarrow> basename f)
        i vs ts"
    from Cons.prems(1) f True st i
    have run: "object_loop env cm ps (objs @ [obj]) (oid + 1) (items @ [oid]) = Inr (objs', oid', items')"
      by (simp add: obj_def Let_def)
    have "object_ok nb obj"
      unfolding obj_def using i(1) stl_indices_in_range [OF st] by (rule object_elem_ok)
    with Cons.prems(3) have "list_all (object_ok nb) (objs @ [obj])" by simp
    from Cons.IH [OF run rest this] show ?thesis .
  qed
qed

lemma color_loop_tags:
  "color_loop parts bases cm cid = (bases', cm', cid') \<Longrightarrow>
     list_all (\<lambda>c. tag c = ''{'' @ ns_material @ ''}base'') bases \<Longrightarrow>
     list_all (\<lambda>c. tag c = ''{'' @ ns_material @ ''}base'') bases'"
proof (induction parts arbitrary: bases cm cid)
  case Nil
  then show ?case by auto
next
  case (Cons p ps)
  show ?case
  proof (cases "cm (part_color p)")
    case None
    with Cons.prems(1)
    have run: "color_loop ps (bases @ [base_elem (base_name p cid) (part_color p)])
        (cm(part_color p \<mapsto> cid)) (cid + 1) = (bases', cm', cid')" by (simp add: Let_def)
    have "list_all (\<lambda>c. tag c = ''{'' @ ns_material @ ''}base'')
        (bases @ [base_elem (base_name p cid) (part_color p)])"
      using Cons.prems(2) by (simp add: base_elem_def)
    from Cons.IH [OF run this] show ?thesis .
  next
    case (Some i)
    with Cons.prems(1) have "color_loop ps bases cm cid = (bases', cm', cid')" by (simp add: Let_def)
    from Cons.IH [OF this Cons.prems(2)] show ?thesis .
  qed
qed

lemma color_loop_colors:
  "color_loop parts bases cm cid = (bases', cm', cid') \<Longrightarrow>
     (\<forall>c. cm c \<noteq> None \<longrightarrow> Some c \<in> set (map (\<lambda>b. get_attr b ''displaycolor'') bases)) \<Longrightarrow>
     (\<forall>c. cm' c \<noteq> None \<longrightarrow> Some c \<in> set (map (\<lambda>b. get_attr b ''displaycolor'') bases'))"
proof (induction parts arbitrary: bases cm cid)
  case Nil
  then show ?case by auto
next
  case (Cons p ps)
  show ?case
  proof (cases "cm (part_color p)")
    case None
    with Cons.prems(1)
    have run: "color_loop ps (bases @ [base_elem (base_name p cid) (part_color p)])
        (cm(part_color p \<mapsto> cid)) (cid + 1) = (bases', cm', cid')" by (simp add: Let_def)
    have "\<forall>c. (cm(part_color p \<mapsto> cid)) c \<noteq> None \<longrightarrow>
        Some c \<in> set (map (\<lambda>b. get_attr b ''displaycolor'')
          (bases @ [base_elem (base_name p cid) (part_color p)]))"
      using Cons.prems(2) by (auto simp: base_elem_def get_attr_def)
    from Cons.IH [OF run this] show ?thesis .
  next
    case (Some i)
    with Cons.prems(1) have "color_loop ps bases cm cid = (bases', cm', cid')" by (simp add: Let_def)
    from Cons.IH [OF this Cons.prems(2)] show ?thesis .
  qed
qed

text \<open>What a successful \<open>build_model\<close> is made of.\<close>

lemma build_model_Inr:
  assumes "build_model env parts = Inr (model, items)"
  shows "\<exists>bases cm objs oid.
    color_loop parts [] Map.empty 0 = (bases, cm, length bases) \<and>
    object_loop env cm parts [] 2 [] = Inr (objs, oid, items) \<and>
    objects_of model = objs \<and> bases_of model = bases \<and> items_of model = map item_elem items"
proof -
  obtain bases cm cid where cl: "color_loop parts [] Map.empty 0 = (bases, cm, cid)"
    by (cases "color_loop parts [] Map.empty 0") auto
  from cl have "color_loop parts [] Map.empty (length ([]::xml list)) = (bases, cm, cid)" by simp
  from color_loop_length [OF this] have cid: "cid = length bases" .
  from assms cl obtain objs oid where
    ol: "object_loop env cm parts [] 2 [] = Inr (objs, oid, items)"
    and m: "model = Element ''model''
                   [(''unit'', ''millimeter''), (''xmlns'', ns_3mf), (''xmlns:m'', ns_material)]
                   [Element ''resources'' []
                      (Element (''{'' @ ns_material @ ''}basematerials'') [(''id'', ''1'')] bases
                       # objs),
                    Element ''build'' [] (map item_elem items)]"
    by (auto simp: build_model_def split: sum.splits)
  from object_loop_shape [OF ol] have ot: "list_all (\<lambda>c. tag c = ''object'') objs" by auto
  from color_loop_tags [OF cl] have bt: "list_all (\<lambda>c. tag c = ''{'' @ ns_material @ ''}base'') bases"
    by simp
  have it: "list_all (\<lambda>c. tag c = ''item'') (map item_elem items)"
    by (simp add: list_all_iff item_elem_def)
  have o: "objects_of model = objs"
    using ot by (simp add: m objects_of_def filter_tag_all)
  have b: "bases_of model = bases"
    using bt filter_tag_none [OF ot, of "''{'' @ ns_material @ ''}basematerials''"]
    by (simp add: m bases_of_def filter_tag_all)
  have i: "items_of model = map item_elem items"
    using it by (simp add: m items_of_def filter_tag_all)
  from cl cid have "color_loop parts [] Map.empty 0 = (bases, cm, length bases)" by simp
  with ol o b i show ?thesis by (intro exI conjI)
qed

text \<open>
  C3. When the model is built, the build list is 2, 3, ..., one identity per part that
  is not skipped; the \<^verbatim>\<open>object\<close> elements carry exactly these identities, in this
  order, and the names of the parts that are not skipped, in input order; the
  \<^verbatim>\<open>item\<close> elements of \<^verbatim>\<open>build\<close> reference exactly the build list, in order. With
  three parts of which the second has no source there are exactly two objects, with the
  identities 2 and 3, for the first and the third part.
\<close>

theorem object_identities:
  assumes "build_model env parts = Inr (model, build_items)"
  shows "build_items = [2..<2 + length (located env parts)] \<and>
         map (\<lambda>obj. get_attr obj ''id'') (objects_of model) = map (\<lambda>n. Some (str_nat n)) build_items \<and>
         map (\<lambda>obj. get_attr obj ''name'') (objects_of model) =
           map (\<lambda>p. Some (object_name p)) (located env parts) \<and>
         map (\<lambda>item. get_attr item ''objectid'') (items_of model) =
           map (\<lambda>n. Some (str_nat n)) build_items \<and>
         (parts = [a, b, c] \<and> part_exists env a \<and> \<not> part_exists env b \<and> part_exists env c \<longrightarrow>
            build_items = [2, 3] \<and> length (objects_of model) = 2 \<and>
            map (\<lambda>obj. get_attr obj ''name'') (objects_of model) = [Some (object_name a), Some (object_name c)])"
proof -
  from build_model_Inr [OF assms] obtain cm objs oid where
    ol: "object_loop env cm parts [] 2 [] = Inr (objs, oid, build_items)"
    and o: "objects_of model = objs" and i: "items_of model = map item_elem build_items"
    by (elim exE conjE)
  from object_loop_shape [OF ol] have
    s: "build_items = [2..<2 + length objs]" "length objs = length (located env parts)"
      "map (\<lambda>obj. get_attr obj ''id'') objs = map (\<lambda>n. Some (str_nat n)) [2..<2 + length objs]"
      "map (\<lambda>obj. get_attr obj ''name'') objs = map (\<lambda>p. Some (object_name p)) (located env parts)"
    by auto
  have it: "map (\<lambda>item. get_attr item ''objectid'') (map item_elem build_items) =
      map (\<lambda>n. Some (str_nat n)) build_items"
    by (simp add: item_elem_def get_attr_def)
  have gen: "build_items = [2..<2 + length (located env parts)]"
    "map (\<lambda>obj. get_attr obj ''id'') (objects_of model) = map (\<lambda>n. Some (str_nat n)) build_items"
    "map (\<lambda>obj. get_attr obj ''name'') (objects_of model) =
           map (\<lambda>p. Some (object_name p)) (located env parts)"
    "map (\<lambda>item. get_attr item ''objectid'') (items_of model) =
           map (\<lambda>n. Some (str_nat n)) build_items"
    using s o i it by simp_all
  have "build_items = [2, 3] \<and> length (objects_of model) = 2 \<and>
      map (\<lambda>obj. get_attr obj ''name'') (objects_of model) = [Some (object_name a), Some (object_name c)]"
    if "parts = [a, b, c] \<and> part_exists env a \<and> \<not> part_exists env b \<and> part_exists env c"
  proof -
    from that have "located env parts = [a, c]" by (simp add: located_def)
    with gen(1,3) s(2) o show ?thesis by (simp add: upt_conv_Cons)
  qed
  with gen show ?thesis by blast
qed

lemma color_loop_empty_range:
  assumes "color_loop parts [] Map.empty 0 = (bases, cm, cid)"
  shows "cm c = Some i \<Longrightarrow> i < cid"
proof -
  have "\<forall>c i. (Map.empty :: string \<rightharpoonup> nat) c = Some i \<longrightarrow> i < 0" by simp
  from color_loop_range [OF assms this] show "cm c = Some i \<Longrightarrow> i < cid" by blast
qed

lemma color_loop_empty_covers:
  assumes cl: "color_loop parts [] Map.empty 0 = (bases, cm, length bases)"
  shows "\<forall>p\<in>set parts. \<exists>i<length bases. cm (part_color p) = Some i"
proof
  fix p assume "p \<in> set parts"
  from color_loop_covers [OF cl this] obtain i where i: "cm (part_color p) = Some i" by blast
  from color_loop_empty_range [OF cl i] i
  show "\<exists>i<length bases. cm (part_color p) = Some i" by blast
qed

text \<open>
  C6. In the model that is built, for every \<^verbatim>\<open>object\<close>: \<^verbatim>\<open>pindex\<close> is the numeral of
  an index below the number of \<^verbatim>\<open>base\<close> entries of \<^verbatim>\<open>basematerials\<close>, and
  \<^verbatim>\<open>v1\<close>, \<^verbatim>\<open>v2\<close>, \<^verbatim>\<open>v3\<close> of every \<^verbatim>\<open>triangle\<close> are numerals of indices below
  the number of \<^verbatim>\<open>vertex\<close> entries of the \<^verbatim>\<open>vertices\<close> block of that same object.
\<close>

theorem model_indices_in_range:
  assumes "build_model env parts = Inr (model, build_items)"
  shows "list_all (object_ok (length (bases_of model))) (objects_of model)"
proof -
  from build_model_Inr [OF assms] obtain bases cm objs oid where
    cl: "color_loop parts [] Map.empty 0 = (bases, cm, length bases)"
    and ol: "object_loop env cm parts [] 2 [] = Inr (objs, oid, build_items)"
    and o: "objects_of model = objs" and b: "bases_of model = bases"
    by (elim exE conjE)
  have "list_all (object_ok (length bases)) []" by simp
  from object_loop_ok [OF ol color_loop_empty_covers [OF cl] this]
  have "list_all (object_ok (length bases)) objs" .
  then show ?thesis unfolding o b .
qed

lemma object_loop_succeeds:
  assumes "\<forall>p\<in>set parts. \<exists>f. p ''file'' = Some f \<and> (path_exists env f \<longrightarrow> from_file env f \<noteq> None)"
  shows "\<exists>r. object_loop env cm parts objs oid items = Inr r"
  using assms
proof (induction parts arbitrary: objs oid items)
  case Nil
  then show ?case by simp
next
  case (Cons p ps)
  from Cons.prems obtain f where f: "p ''file'' = Some f"
    and d: "path_exists env f \<longrightarrow> from_file env f \<noteq> None" by auto
  from Cons.prems have rest: "\<forall>p\<in>set ps. \<exists>f. p ''file'' = Some f \<and>
      (path_exists env f \<longrightarrow> from_file env f \<noteq> None)" by simp
  show ?case
  proof (cases "path_exists env f")
    case False
    with f Cons.IH [OF rest] show ?thesis by simp
  next
    case True
    with d obtain mesh where "from_file env f = Some mesh" by auto
    then obtain vs ts where "stl_to_vertices_triangles env f = Inr (vs, ts)"
      using stl_to_vertices_triangles_Inr by blast
    with f True Cons.IH [OF rest] show ?thesis by (simp add: Let_def)
  qed
qed

lemma build_model_succeeds:
  assumes "\<forall>p\<in>set parts. \<exists>f. p ''file'' = Some f \<and> (path_exists env f \<longrightarrow> from_file env f \<noteq> None)"
  shows "\<exists>model items. build_model env parts = Inr (model, items)"
proof -
  obtain bases cm cid where cl: "color_loop parts [] Map.empty 0 = (bases, cm, cid)"
    by (cases "color_loop parts [] Map.empty 0") auto
  from object_loop_succeeds [OF assms, of cm "[]" 2 "[]"] obtain objs oid items where
    "object_loop env cm parts [] 2 [] = Inr (objs, oid, items)" by (metis prod_cases3)
  with cl show ?thesis by (simp add: build_model_def)
qed

lemma sample_exists:
  "part_exists sample_env plate_part" "\<not> part_exists sample_env ghost_part"
  "part_exists sample_env text_part"
  by (simp_all add: part_exists_def plate_part_def ghost_part_def text_part_def
      sample_env_def sample_files_def)

lemma sample_parts_ok:
  "\<forall>p\<in>set [plate_part, ghost_part, text_part].
     \<exists>f. p ''file'' = Some f \<and> (path_exists sample_env f \<longrightarrow> from_file sample_env f \<noteq> None)"
  by (simp add: plate_part_def ghost_part_def text_part_def sample_env_def sample_files_def)

theorem object_identities_witness:
  "part_exists sample_env plate_part \<and> \<not> part_exists sample_env ghost_part \<and>
   part_exists sample_env text_part \<and>
   (\<exists>model. build_model sample_env [plate_part, ghost_part, text_part] = Inr (model, [2, 3]) \<and>
      length (objects_of model) = 2 \<and>
      map (\<lambda>obj. get_attr obj ''id'') (objects_of model) = [Some ''2'', Some ''3''] \<and>
      map (\<lambda>obj. get_attr obj ''name'') (objects_of model) = [Some ''Sign Base'', Some ''Sign Text''] \<and>
      map (\<lambda>item. get_attr item ''objectid'') (items_of model) = [Some ''2'', Some ''3''])"
proof -
  from build_model_succeeds [OF sample_parts_ok] obtain model items where
    h: "build_model sample_env [plate_part, ghost_part, text_part] = Inr (model, items)" by blast
  note t = object_identities [OF h, of plate_part ghost_part text_part]
  from t sample_exists have i: "items = [2, 3]" and l: "length (objects_of model) = 2"
    and nm: "map (\<lambda>obj. get_attr obj ''name'') (objects_of model) =
      [Some (object_name plate_part), Some (object_name text_part)]" by blast+
  from t have ids: "map (\<lambda>obj. get_attr obj ''id'') (objects_of model) = map (\<lambda>n. Some (str_nat n)) items"
    and its: "map (\<lambda>item. get_attr item ''objectid'') (items_of model) = map (\<lambda>n. Some (str_nat n)) items"
    by blast+
  have n: "object_name plate_part = ''Sign Base''" "object_name text_part = ''Sign Text''"
    by (simp_all add: object_name_def plate_part_def text_part_def)
  have s: "str_nat 2 = ''2''" "str_nat 3 = ''3''" by (simp_all add: str_nat.simps)
  from sample_exists i l nm ids its n s h show ?thesis by simp
qed

theorem model_indices_in_range_witness:
  "\<exists>model items. build_model sample_env [ghost_part, text_part, plate_part] = Inr (model, items) \<and>
     list_all (object_ok (length (bases_of model))) (objects_of model)"
proof -
  have "\<forall>p\<in>set [ghost_part, text_part, plate_part].
     \<exists>f. p ''file'' = Some f \<and> (path_exists sample_env f \<longrightarrow> from_file sample_env f \<noteq> None)"
    using sample_parts_ok by simp
  from build_model_succeeds [OF this] obtain model items where
    h: "build_model sample_env [ghost_part, text_part, plate_part] = Inr (model, items)" by blast
  from model_indices_in_range [OF h] h show ?thesis by blast
qed

section \<open>Skipped parts and empty input\<close>

lemma color_loop_colors_sub:
  "color_loop parts bases cm cid = (bases', cm', cid') \<Longrightarrow>
     set (map (\<lambda>b. get_attr b ''displaycolor'') bases') \<subseteq>
       set (map (\<lambda>b. get_attr b ''displaycolor'') bases) \<union> set (map (\<lambda>p. Some (part_color p)) parts)"
proof (induction parts arbitrary: bases cm cid)
  case Nil
  then show ?case by auto
next
  case (Cons p ps)
  show ?case
  proof (cases "cm (part_color p)")
    case None
    with Cons.prems
    have run: "color_loop ps (bases @ [base_elem (base_name p cid) (part_color p)])
        (cm(part_color p \<mapsto> cid)) (cid + 1) = (bases', cm', cid')" by (simp add: Let_def)
    have "get_attr (base_elem (base_name p cid) (part_color p)) ''displaycolor'' = Some (part_color p)"
      by (simp add: base_elem_def get_attr_def)
    with Cons.IH [OF run] show ?thesis by auto
  next
    case (Some i)
    with Cons.prems have "color_loop ps bases cm cid = (bases', cm', cid')" by (simp add: Let_def)
    from Cons.IH [OF this] show ?thesis by auto
  qed
qed

lemma color_loop_all_colors:
  assumes cl: "color_loop parts [] Map.empty 0 = (bases, cm, cid)"
  shows "set (map (\<lambda>b. get_attr b ''displaycolor'') bases) = set (map (\<lambda>p. Some (part_color p)) parts)"
proof
  from color_loop_colors_sub [OF cl]
  show "set (map (\<lambda>b. get_attr b ''displaycolor'') bases) \<subseteq> set (map (\<lambda>p. Some (part_color p)) parts)"
    by simp
next
  have "\<forall>c. (Map.empty :: string \<rightharpoonup> nat) c \<noteq> None \<longrightarrow>
      Some c \<in> set (map (\<lambda>b. get_attr b ''displaycolor'') ([]::xml list))" by simp
  from color_loop_colors [OF cl this]
  have a: "\<And>c. cm c \<noteq> None \<Longrightarrow> Some c \<in> set (map (\<lambda>b. get_attr b ''displaycolor'') bases)" by blast
  show "set (map (\<lambda>p. Some (part_color p)) parts) \<subseteq> set (map (\<lambda>b. get_attr b ''displaycolor'') bases)"
  proof
    fix x assume "x \<in> set (map (\<lambda>p. Some (part_color p)) parts)"
    then obtain p where p: "p \<in> set parts" "x = Some (part_color p)" by auto
    from a [OF color_loop_covers [OF cl p(1)]] p(2)
    show "x \<in> set (map (\<lambda>b. get_attr b ''displaycolor'') bases)" by simp
  qed
qed

text \<open>
  C2 (amended). A part whose mesh source cannot be located gets no object, no identity
  and no build item: the objects and the build list are as many as the located parts.
  Its colour is registered all the same. The colour pass is a loop of its own over every
  part, run before any source is looked for, so the \<^verbatim>\<open>basematerials\<close> block is what
  that pass makes of the whole part list, and its colours are exactly the colours of all
  parts, skipped or not.
\<close>

theorem skipped_part_color_registered:
  assumes "build_model env parts = Inr (model, build_items)"
  shows "bases_of model = fst (color_loop parts [] Map.empty 0) \<and>
         set (displaycolors model) = set (map (\<lambda>p. Some (part_color p)) parts) \<and>
         length (objects_of model) = length (located env parts) \<and>
         length build_items = length (located env parts)"
proof -
  from build_model_Inr [OF assms] obtain bases cm objs oid where
    cl: "color_loop parts [] Map.empty 0 = (bases, cm, length bases)"
    and ol: "object_loop env cm parts [] 2 [] = Inr (objs, oid, build_items)"
    and o: "objects_of model = objs" and b: "bases_of model = bases"
    by (elim exE conjE)
  from object_loop_shape [OF ol] obtain new where
    n: "objs = [] @ new" "build_items = [] @ [2..<2 + length new]"
      "length new = length (located env parts)" by blast
  from n(2) have "length build_items = length [2..<2 + length new]" by (simp only: append_Nil)
  also have "\<dots> = length new" by (simp only: length_upt add_diff_cancel_left')
  finally have "length build_items = length (located env parts)" using n(3) by simp
  moreover from n(1,3) have "length objs = length (located env parts)" by simp
  moreover from cl b have "bases_of model = fst (color_loop parts [] Map.empty 0)" by simp
  moreover from color_loop_all_colors [OF cl] b
  have "set (displaycolors model) = set (map (\<lambda>p. Some (part_color p)) parts)"
    by (simp add: displaycolors_def)
  ultimately show ?thesis using o by simp
qed

lemma ghost_text_ok:
  "\<forall>p\<in>set [ghost_part, text_part].
     \<exists>f. p ''file'' = Some f \<and> (path_exists sample_env f \<longrightarrow> from_file sample_env f \<noteq> None)"
  using sample_parts_ok by simp

theorem skipped_part_color_registered_witness:
  "\<exists>model. build_model sample_env [ghost_part, text_part] = Inr (model, [2]) \<and>
     set (displaycolors model) = {Some ''#FF0000'', Some ''#1A1A1A''} \<and>
     length (objects_of model) = 1"
proof -
  from build_model_succeeds [OF ghost_text_ok] obtain model items where
    h: "build_model sample_env [ghost_part, text_part] = Inr (model, items)" by blast
  have loc: "located sample_env [ghost_part, text_part] = [text_part]"
    by (simp add: located_def sample_exists)
  have c: "part_color ghost_part = ''#FF0000''" "part_color text_part = ''#1A1A1A''"
    by (simp_all add: part_color_def ghost_part_def text_part_def)
  from build_model_Inr [OF h] obtain cm objs oid where
    ol: "object_loop sample_env cm [ghost_part, text_part] [] 2 [] = Inr (objs, oid, items)"
    by (elim exE conjE)
  from object_loop_shape [OF ol] obtain new :: "xml list" where
    n: "items = [] @ [2..<2 + length new]" "length new = length (located sample_env [ghost_part, text_part])"
    by blast
  from n(2) loc have "length new = 1" by simp
  with n(1) have i: "items = [2]" by simp
  from skipped_part_color_registered [OF h] loc c
  have "set (displaycolors model) = {Some ''#FF0000'', Some ''#1A1A1A''}"
    and "length (objects_of model) = 1" by auto
  with h i show ?thesis by blast
qed

text \<open>
  In the sample environment \<^verbatim>\<open>ghost.stl\<close> does not exist and \<open>ghost_part\<close> is the
  only part of colour \<^verbatim>\<open>#FF0000\<close>; the emitted block lists that colour first.
\<close>

theorem skipped_part_color_counterexample:
  "\<not> part_exists sample_env ghost_part \<and> part_color ghost_part = ''#FF0000'' \<and>
   part_color text_part = ''#1A1A1A'' \<and>
   map_sum id (displaycolors \<circ> fst) (build_model sample_env [ghost_part, text_part]) =
     Inr [Some ''#FF0000'', Some ''#1A1A1A'']"
proof -
  from build_model_succeeds [OF ghost_text_ok] obtain model items where
    h: "build_model sample_env [ghost_part, text_part] = Inr (model, items)" by blast
  have c: "part_color ghost_part = ''#FF0000''" "part_color text_part = ''#1A1A1A''"
    by (simp_all add: part_color_def ghost_part_def text_part_def)
  from build_model_Inr [OF h] obtain bases cm where
    cl: "color_loop [ghost_part, text_part] [] Map.empty 0 = (bases, cm, length bases)"
    and b: "bases_of model = bases"
    by (elim exE conjE)
  from cl c have "bases = [base_elem (base_name ghost_part 0) ''#FF0000'',
      base_elem (base_name text_part 1) ''#1A1A1A'']"
    by (simp add: Let_def)
  with b have "displaycolors model = [Some ''#FF0000'', Some ''#1A1A1A'']"
    by (simp add: displaycolors_def base_elem_def get_attr_def)
  with h c sample_exists show ?thesis by simp
qed





lemma sample_pretty: "toprettyxml sample_env m \<noteq> None"
  by (simp add: sample_env_def)

lemma sample_writable:
  "archive_writable sample_env ''out.3mf''" "archive_writable sample_env ''sign.3mf''"
  "\<not> archive_writable sample_env ''nodir/out.3mf''"
  by (simp_all add: sample_env_def)

text \<open>Where the archive cannot be written the exception leaves \<open>create_3mf\<close>.\<close>

lemma create_3mf_unwritable:
  "create_3mf sample_env [] ''nodir/out.3mf'' = Inl OSError"
  by (simp add: create_3mf_def build_model_def Let_def sample_env_def)




section \<open>Determinism\<close>

lemma object_elem_cong:
  "format_6f e1 = format_6f e2 \<Longrightarrow> object_elem e1 oid n ci vs ts = object_elem e2 oid n ci vs ts"
  by (simp add: object_elem_def vertex_elem_def)

lemma object_loop_agree:
  assumes "\<forall>p\<in>set parts. \<forall>f. p ''file'' = Some f \<longrightarrow>
      path_exists e1 f = path_exists e2 f \<and> (path_exists e1 f \<longrightarrow> from_file e1 f = from_file e2 f)"
    and fmt: "format_6f e1 = format_6f e2"
  shows "object_loop e1 cm parts objs oid items = object_loop e2 cm parts objs oid items"
  using assms(1)
proof (induction parts arbitrary: objs oid items)
  case Nil
  then show ?case by simp
next
  case (Cons p ps)
  from Cons.prems have rest: "\<forall>p\<in>set ps. \<forall>f. p ''file'' = Some f \<longrightarrow>
      path_exists e1 f = path_exists e2 f \<and> (path_exists e1 f \<longrightarrow> from_file e1 f = from_file e2 f)"
    by simp
  note ih = Cons.IH [OF rest]
  show ?case
  proof (cases "p ''file''")
    case None
    then show ?thesis by simp
  next
    case (Some f)
    with Cons.prems have ex: "path_exists e1 f = path_exists e2 f"
      and ff: "path_exists e1 f \<longrightarrow> from_file e1 f = from_file e2 f" by auto
    show ?thesis
    proof (cases "path_exists e1 f")
      case False
      with Some ex ih show ?thesis by simp
    next
      case True
      with ff have "stl_to_vertices_triangles e1 f = stl_to_vertices_triangles e2 f"
        by (simp add: stl_to_vertices_triangles_def)
      with Some True ex ih object_elem_cong [OF fmt] show ?thesis
        by (simp add: Let_def split: sum.splits)
    qed
  qed
qed

text \<open>
  C7. The conversion is a function of its inputs: two runs on the same part list, in
  environments that agree on which of the named sources exist and on what the existing
  ones contain (and in which the two library functions are the same), build the same
  model, with the same vertex tables, the same materials in the same order and the same
  object identities; where the output path can be written in both or in neither, they
  return the same archive entries or raise the same exception. Whatever else the file
  system holds plays no part.
\<close>

theorem create_3mf_deterministic:
  assumes "\<forall>p\<in>set parts. \<forall>f. p ''file'' = Some f \<longrightarrow>
      path_exists e1 f = path_exists e2 f \<and> (path_exists e1 f \<longrightarrow> from_file e1 f = from_file e2 f)"
    and "format_6f e1 = format_6f e2" and "toprettyxml e1 = toprettyxml e2"
  shows "build_model e1 parts = build_model e2 parts \<and>
         (archive_writable e1 output_file = archive_writable e2 output_file \<longrightarrow>
          create_3mf e1 parts output_file = create_3mf e2 parts output_file)"
proof -
  have "build_model e1 parts = build_model e2 parts"
    by (simp add: build_model_def object_loop_agree [OF assms(1,2)])
  moreover from assms(3) have "\<And>m. toprettyxml e1 m = toprettyxml e2 m" by simp
  ultimately show ?thesis
    by (simp add: create_3mf_def Let_def split: sum.splits prod.splits option.splits)
qed

theorem create_3mf_deterministic_witness:
  "path_exists sample_env2 ''extra.stl'' \<and> \<not> path_exists sample_env ''extra.stl'' \<and>
   archive_writable sample_env ''out.3mf'' = archive_writable sample_env2 ''out.3mf'' \<and>
   build_model sample_env [plate_part, ghost_part, text_part] =
     build_model sample_env2 [plate_part, ghost_part, text_part] \<and>
   create_3mf sample_env [plate_part, ghost_part, text_part] ''out.3mf'' =
     create_3mf sample_env2 [plate_part, ghost_part, text_part] ''out.3mf''"
proof -
  have a: "\<forall>p\<in>set [plate_part, ghost_part, text_part]. \<forall>f. p ''file'' = Some f \<longrightarrow>
      path_exists sample_env f = path_exists sample_env2 f \<and>
      (path_exists sample_env f \<longrightarrow> from_file sample_env f = from_file sample_env2 f)"
    by (simp add: sample_env2_def plate_part_def ghost_part_def text_part_def)
  have b: "format_6f sample_env = format_6f sample_env2" by (simp add: sample_env2_def)
  have c: "toprettyxml sample_env = toprettyxml sample_env2" by (simp add: sample_env2_def)
  have d: "path_exists sample_env2 ''extra.stl'' \<and> \<not> path_exists sample_env ''extra.stl''"
    by (simp add: sample_env2_def sample_env_def sample_files_def)
  have e: "archive_writable sample_env ''out.3mf'' = archive_writable sample_env2 ''out.3mf''"
    by (simp add: sample_env2_def)
  from create_3mf_deterministic [OF a b c, of "''out.3mf''"] d e show ?thesis by blast
qed

section \<open>The package\<close>

lemma split_nl_nonempty: "split_nl s \<noteq> []"
  by (induction s) (auto split: list.splits)

lemma split_nl_first:
  "newline \<notin> set l \<Longrightarrow> split_nl (l @ newline # r) = l # split_nl r"
  by (induction l) (auto split: list.splits)

lemma declaration_one_line: "newline \<notin> set xml_declaration"
  by (simp add: xml_declaration_def newline_def)

text \<open>
  C9. Every conversion that returns has written an archive of exactly three entries,
  \<^verbatim>\<open>[Content_Types].xml\<close>, \<^verbatim>\<open>_rels/.rels\<close> and \<^verbatim>\<open>3D/3dmodel.model\<close>, in this
  order, the first two with their fixed contents, and the first line of the model
  document is the declaration \<^verbatim>\<open><?xml version="1.0" encoding="UTF-8"?>\<close>.
\<close>

theorem package_entries:
  assumes "create_3mf env parts output_file = Inr (path, entries)"
  shows "path = output_file \<and>
         map fst entries = [''[Content_Types].xml'', ''_rels/.rels'', ''3D/3dmodel.model''] \<and>
         map_of entries ''[Content_Types].xml'' = Some content_types \<and>
         map_of entries ''_rels/.rels'' = Some rels \<and>
         (\<exists>doc. map_of entries ''3D/3dmodel.model'' = Some doc \<and>
                hd (split_nl doc) = xml_declaration \<and> 1 < length (split_nl doc))"
proof -
  from assms obtain pretty where
    e: "entries = [(''[Content_Types].xml'', content_types), (''_rels/.rels'', rels),
         (''3D/3dmodel.model'', xml_declaration @ newline # join_nl (tl (split_nl pretty)))]"
    and p: "path = output_file"
    by (auto simp: create_3mf_def Let_def split: sum.splits option.splits if_splits)
  let ?doc = "xml_declaration @ newline # join_nl (tl (split_nl pretty))"
  have s: "split_nl ?doc = xml_declaration # split_nl (join_nl (tl (split_nl pretty)))"
    by (rule split_nl_first [OF declaration_one_line])
  have "hd (split_nl ?doc) = xml_declaration \<and> 1 < length (split_nl ?doc)"
    using s split_nl_nonempty [of "join_nl (tl (split_nl pretty))"] by (cases "split_nl (join_nl (tl (split_nl pretty)))") auto
  moreover have "map_of entries ''3D/3dmodel.model'' = Some ?doc" by (simp add: e)
  moreover have "map_of entries ''[Content_Types].xml'' = Some content_types"
    "map_of entries ''_rels/.rels'' = Some rels" by (simp_all add: e)
  ultimately show ?thesis using e p by auto
qed

theorem package_entries_witness:
  "\<exists>entries doc. create_3mf sample_env [plate_part] ''sign.3mf'' = Inr (''sign.3mf'', entries) \<and>
     map fst entries = [''[Content_Types].xml'', ''_rels/.rels'', ''3D/3dmodel.model''] \<and>
     map_of entries ''3D/3dmodel.model'' = Some doc \<and> hd (split_nl doc) = xml_declaration"
proof -
  have "\<forall>p\<in>set [plate_part].
     \<exists>f. p ''file'' = Some f \<and> (path_exists sample_env f \<longrightarrow> from_file sample_env f \<noteq> None)"
    using sample_parts_ok by simp
  from build_model_succeeds [OF this] obtain model items where
    b: "build_model sample_env [plate_part] = Inr (model, items)" by blast
  obtain pretty where pr: "toprettyxml sample_env model = Some pretty"
    using sample_pretty [of model] by auto
  from b pr sample_writable(2) obtain path entries where
    h: "create_3mf sample_env [plate_part] ''sign.3mf'' = Inr (path, entries)"
    by (simp add: create_3mf_def Let_def)
  from package_entries [OF h] obtain doc where
    d: "path = ''sign.3mf''"
      "map fst entries = [''[Content_Types].xml'', ''_rels/.rels'', ''3D/3dmodel.model'']"
      "map_of entries ''3D/3dmodel.model'' = Some doc" "hd (split_nl doc) = xml_declaration"
    by (elim exE conjE)
  from h d(1) have "create_3mf sample_env [plate_part] ''sign.3mf'' = Inr (''sign.3mf'', entries)"
    by (simp only:)
  with d(2,3,4) show ?thesis by (intro exI conjI)
qed

end
